theory Spec2Isabelle
  imports Complex_Main "HOL-Library.AList"
begin

section \<open>Values and errors\<close>

text \<open>
  The importer reads a JSON document with \<^verbatim>\<open>json.load\<close> and hands parts of it, unchanged,
  to the database driver as query parameters. Both sides see the same tree of values.
  A Python \<^verbatim>\<open>float\<close> is an IEEE double; every finite double is a rational number, and
  \<open>JFloat\<close> carries that exact value (the non-standard literals NaN and Infinity are
  left out). A Python \<^verbatim>\<open>dict\<close> is an association list read with \<open>map_of\<close>; the lists
  produced by the parser have distinct keys.
\<close>

datatype json =
    JNull
  | JBool bool
  | JInt int
  | JFloat rat
  | JStr string
  | JArr "json list"
  | JObj "(string \<times> json) list"

text \<open>
  Every exception the program can raise is a value. The first five are Python's own, the
  last four are raised by the driver when the server rejects a statement.
\<close>

datatype error =
    FileNotFoundError
  | JSONDecodeError
  | KeyError string
  | TypeError
  | AttributeError
  | ConstraintError
  | CypherTypeError
  | CypherSemanticError
  | SchemaError

section \<open>Python operations on parsed JSON\<close>

text \<open>\<^verbatim>\<open>x[k]\<close> with a string key: only a dict can be subscripted by a string.\<close>

fun py_getitem :: "json \<Rightarrow> string \<Rightarrow> error + json" where
  "py_getitem (JObj kvs) k =
     (case map_of kvs k of None \<Rightarrow> Inl (KeyError k) | Some v \<Rightarrow> Inr v)"
| "py_getitem _ k = Inl TypeError"

text \<open>\<^verbatim>\<open>x.get(k, d)\<close>: only a dict has the method.\<close>

fun py_get :: "json \<Rightarrow> string \<Rightarrow> json \<Rightarrow> error + json" where
  "py_get (JObj kvs) k d = (case map_of kvs k of None \<Rightarrow> Inr d | Some v \<Rightarrow> Inr v)"
| "py_get _ k d = Inl AttributeError"

text \<open>
  \<^verbatim>\<open>for x in v\<close>: a list yields its elements, a string its characters, a dict its keys;
  nothing else is iterable.
\<close>

fun py_iter :: "json \<Rightarrow> error + json list" where
  "py_iter (JArr xs) = Inr xs"
| "py_iter (JStr s) = Inr (map (\<lambda>c. JStr [c]) s)"
| "py_iter (JObj kvs) = Inr (map (\<lambda>kv. JStr (fst kv)) kvs)"
| "py_iter _ = Inl TypeError"

text \<open>\<^verbatim>\<open>len(v)\<close>.\<close>

fun py_len :: "json \<Rightarrow> error + nat" where
  "py_len (JArr xs) = Inr (length xs)"
| "py_len (JStr s) = Inr (length s)"
| "py_len (JObj kvs) = Inr (length kvs)"
| "py_len _ = Inl TypeError"

text \<open>
  Keys of a Python dict. Lists and dicts are unhashable; \<^verbatim>\<open>True\<close>, \<^verbatim>\<open>1\<close> and \<^verbatim>\<open>1.0\<close> are
  one key, since they are equal and hash alike.
\<close>

datatype pykey = KNone | KNum rat | KStr string

fun py_key :: "json \<Rightarrow> error + pykey" where
  "py_key JNull = Inr KNone"
| "py_key (JBool b) = Inr (KNum (if b then 1 else 0))"
| "py_key (JInt n) = Inr (KNum (of_int n))"
| "py_key (JFloat r) = Inr (KNum r)"
| "py_key (JStr s) = Inr (KStr s)"
| "py_key (JArr xs) = Inl TypeError"
| "py_key (JObj kvs) = Inl TypeError"

section \<open>Sequencing with errors\<close>

text \<open>An exception ends the computation it is raised in; \<open>and_then\<close> passes a result on.\<close>

fun and_then :: "error + 'a \<Rightarrow> ('a \<Rightarrow> error + 'b) \<Rightarrow> error + 'b" where
  "and_then (Inl e) f = Inl e"
| "and_then (Inr x) f = f x"

text \<open>A loop that builds a list, stopping at the first exception.\<close>

fun mapM :: "('a \<Rightarrow> error + 'b) \<Rightarrow> 'a list \<Rightarrow> error + 'b list" where
  "mapM f [] = Inr []"
| "mapM f (x # xs) = and_then (f x) (\<lambda>y. and_then (mapM f xs) (\<lambda>ys. Inr (y # ys)))"

text \<open>A loop that threads a state through its body, stopping at the first exception.\<close>

fun foldM :: "('a \<Rightarrow> 's \<Rightarrow> error + 's) \<Rightarrow> 'a list \<Rightarrow> 's \<Rightarrow> error + 's" where
  "foldM f [] s = Inr s"
| "foldM f (x # xs) s = and_then (f x s) (foldM f xs)"

section \<open>Batching\<close>

definition FOOD_BATCH_SIZE :: nat where
  "FOOD_BATCH_SIZE = 100"

definition NUTRIENT_BATCH_SIZE :: nat where
  "NUTRIENT_BATCH_SIZE = 1000"

text \<open>\<^verbatim>\<open>range(i, stop, step)\<close> for a positive step, as the list of its values.\<close>

function py_range :: "nat \<Rightarrow> nat \<Rightarrow> nat \<Rightarrow> nat list" where
  "py_range i stop step =
     (if i < stop \<and> 0 < step then i # py_range (i + step) stop step else [])"
  by pat_completeness auto
termination
  by (relation "measure (\<lambda>(i, stop, step). stop - i)") auto

declare py_range.simps [simp del]

text \<open>\<^verbatim>\<open>xs[i:j]\<close> for \<open>0 \<le> i \<le> j\<close>; a slice never raises, it is cut at the end of the list.\<close>

definition py_slice :: "'a list \<Rightarrow> nat \<Rightarrow> nat \<Rightarrow> 'a list" where
  "py_slice xs i j = take (j - i) (drop i xs)"

text \<open>
  The batches of \<^verbatim>\<open>for i in range(0, len(xs), size): batch = xs[i:i + size]\<close>, in the
  order in which the loop submits them.
\<close>

definition batches :: "nat \<Rightarrow> 'a list \<Rightarrow> 'a list list" where
  "batches bsz xs = map (\<lambda>i. py_slice xs i (i + bsz)) (py_range 0 (length xs) bsz)"

section \<open>The graph store\<close>

text \<open>
  The database is a property graph. A node has labels and properties, a relationship has
  a type, a start node, an end node and properties. Nodes are never deleted by the
  importer, so a node is identified by its position in \<open>nodes\<close>. The store also holds
  the uniqueness constraints and the indexes declared on it, each a pair of a label and
  a property name.
\<close>

record node =
  labels :: "string list"
  props :: "(string \<times> json) list"

record rel =
  rtype :: string
  src :: nat
  dst :: nat
  rprops :: "(string \<times> json) list"

record graph =
  nodes :: "node list"
  rels :: "rel list"
  constraints :: "(string \<times> string) list"
  indexes :: "(string \<times> string) list"

definition empty_graph :: graph where
  "empty_graph = \<lparr>nodes = [], rels = [], constraints = [], indexes = []\<rparr>"

text \<open>Reading a property that is not set yields null.\<close>

definition get_prop :: "(string \<times> json) list \<Rightarrow> string \<Rightarrow> json" where
  "get_prop ps k = (case map_of ps k of None \<Rightarrow> JNull | Some v \<Rightarrow> v)"

subsection \<open>Cypher expressions\<close>

text \<open>
  \<^verbatim>\<open>m.k\<close>: the entry of a map, null when the key is missing or the map itself is null;
  a type error on anything else.
\<close>

fun cy_prop :: "json \<Rightarrow> string \<Rightarrow> error + json" where
  "cy_prop (JObj kvs) k = Inr (get_prop kvs k)"
| "cy_prop JNull k = Inr JNull"
| "cy_prop _ k = Inl CypherTypeError"

text \<open>
  Equality as a property pattern \<^verbatim>\<open>{k: v}\<close> tests it: integers and floats compare by
  value, lists element by element, values of different types are unequal, and null
  equals nothing.
\<close>

fun cy_eq :: "json \<Rightarrow> json \<Rightarrow> bool" where
  "cy_eq (JBool a) (JBool b) = (a = b)"
| "cy_eq (JInt a) (JInt b) = (a = b)"
| "cy_eq (JInt a) (JFloat b) = (of_int a = b)"
| "cy_eq (JFloat a) (JInt b) = (a = of_int b)"
| "cy_eq (JFloat a) (JFloat b) = (a = b)"
| "cy_eq (JStr a) (JStr b) = (a = b)"
| "cy_eq (JArr xs) (JArr ys) = list_all2 cy_eq xs ys"
| "cy_eq _ _ = False"

text \<open>
  \<^verbatim>\<open>toFloat(v)\<close>: null stays null, an integer is converted (\<open>i2f\<close>, which rounds beyond
  53 bits), a string is parsed (\<open>s2f\<close>) and is null when it is no number; any other
  value is a type error. The two conversions are parameters of the model.
\<close>

fun toFloat :: "(int \<Rightarrow> rat) \<Rightarrow> (string \<Rightarrow> rat option) \<Rightarrow> json \<Rightarrow> error + json" where
  "toFloat i2f s2f JNull = Inr JNull"
| "toFloat i2f s2f (JInt n) = Inr (JFloat (i2f n))"
| "toFloat i2f s2f (JFloat r) = Inr (JFloat r)"
| "toFloat i2f s2f (JStr s) = Inr (case s2f s of None \<Rightarrow> JNull | Some r \<Rightarrow> JFloat r)"
| "toFloat i2f s2f _ = Inl CypherTypeError"

text \<open>
  A property holds a boolean, a number, a string, or a list of such values of one type;
  a map cannot be stored.
\<close>

fun scalar_type :: "json \<Rightarrow> nat option" where
  "scalar_type (JBool b) = Some 0"
| "scalar_type (JInt n) = Some 1"
| "scalar_type (JFloat r) = Some 2"
| "scalar_type (JStr s) = Some 3"
| "scalar_type _ = None"

fun storable :: "json \<Rightarrow> bool" where
  "storable (JArr xs) =
     (list_all (\<lambda>x. scalar_type x \<noteq> None) xs \<and>
      list_all (\<lambda>x. scalar_type x = scalar_type (hd xs)) xs)"
| "storable v = (scalar_type v \<noteq> None)"

text \<open>
  The properties written by \<^verbatim>\<open>{k: e, ...}\<close> and \<^verbatim>\<open>SET x.k = e, ...\<close>: each expression
  is evaluated in turn, a null value sets nothing, and a value that cannot be stored is
  a type error.
\<close>

fun eval_props :: "(string \<times> (error + json)) list \<Rightarrow> error + (string \<times> json) list" where
  "eval_props [] = Inr []"
| "eval_props ((k, Inl e) # r) = Inl e"
| "eval_props ((k, Inr v) # r) =
     (if v = JNull then eval_props r
      else if storable v then and_then (eval_props r) (\<lambda>ps. Inr ((k, v) # ps))
      else Inl CypherTypeError)"

subsection \<open>Cypher clauses\<close>

text \<open>\<^verbatim>\<open>MATCH (n:l {k: v})\<close>: the nodes with label \<open>l\<close> whose property \<open>k\<close> equals \<open>v\<close>.\<close>

definition node_matches :: "string \<Rightarrow> string \<Rightarrow> json \<Rightarrow> node \<Rightarrow> bool" where
  "node_matches l k v n = (l \<in> set (labels n) \<and> cy_eq (get_prop (props n) k) v)"

definition match_nodes :: "graph \<Rightarrow> string \<Rightarrow> string \<Rightarrow> json \<Rightarrow> nat list" where
  "match_nodes g l k v =
     filter (\<lambda>i. node_matches l k v (nodes g ! i)) [0..<length (nodes g)]"

text \<open>
  A node with labels \<open>ls\<close> and properties \<open>ps\<close> violates a uniqueness constraint on
  \<open>(l, k)\<close> when it has the label and the property, and a node of the store with that
  label has an equal value.
\<close>

definition violates :: "graph \<Rightarrow> string list \<Rightarrow> (string \<times> json) list \<Rightarrow> bool" where
  "violates g ls ps =
     list_ex (\<lambda>(l, k). l \<in> set ls \<and> match_nodes g l k (get_prop ps k) \<noteq> []) (constraints g)"

text \<open>\<^verbatim>\<open>CREATE (n:ls {ps})\<close>: the new node is appended; its position is returned.\<close>

definition create_node :: "graph \<Rightarrow> string list \<Rightarrow> (string \<times> json) list \<Rightarrow> error + graph \<times> nat" where
  "create_node g ls ps =
     (if violates g ls ps then Inl ConstraintError
      else Inr (g\<lparr>nodes := nodes g @ [\<lparr>labels = ls, props = ps\<rparr>]\<rparr>, length (nodes g)))"

text \<open>\<^verbatim>\<open>CREATE (a)-[:t {ps}]->(b)\<close> between two nodes already bound.\<close>

definition create_rel :: "graph \<Rightarrow> string \<Rightarrow> nat \<Rightarrow> nat \<Rightarrow> (string \<times> json) list \<Rightarrow> graph" where
  "create_rel g t a b ps = g\<lparr>rels := rels g @ [\<lparr>rtype = t, src = a, dst = b, rprops = ps\<rparr>]\<rparr>"

text \<open>
  \<^verbatim>\<open>MERGE (n:l {k: v}) ON CREATE SET n.k1 = e1, ...\<close>: a null \<open>v\<close> is rejected; when nodes
  match, they are the result and nothing is written (the \<^verbatim>\<open>ON CREATE\<close> expressions are
  not evaluated); otherwise one node is created with \<open>k\<close> and the \<^verbatim>\<open>ON CREATE\<close>
  properties. The result is the store and the nodes bound to \<open>n\<close>, one per row.
\<close>

definition merge_node ::
  "graph \<Rightarrow> string \<Rightarrow> string \<Rightarrow> json \<Rightarrow> (string \<times> (error + json)) list \<Rightarrow> error + graph \<times> nat list" where
  "merge_node g l k v on_create =
     (if v = JNull then Inl CypherSemanticError
      else case match_nodes g l k v of
        [] \<Rightarrow> and_then (eval_props ((k, Inr v) # on_create)) (\<lambda>ps.
                and_then (create_node g [l] ps) (\<lambda>(g', i). Inr (g', [i])))
      | m # ms \<Rightarrow> Inr (g, m # ms))"

text \<open>
  Each \<^verbatim>\<open>session.run\<close> is a transaction of its own: a statement that fails changes
  nothing, and the statements before it stay committed. \<open>run_each\<close> is a Python loop
  whose body runs one statement; when the body raises, the loop ends with the exception
  and the store as the last successful statement left it.
\<close>

fun run_each ::
  "('a \<Rightarrow> graph \<Rightarrow> error + graph) \<Rightarrow> 'a list \<Rightarrow> graph \<Rightarrow> error \<times> graph + graph" where
  "run_each f [] g = Inr g"
| "run_each f (x # xs) g =
     (case f x g of Inl e \<Rightarrow> Inl (e, g) | Inr g' \<Rightarrow> run_each f xs g')"

text \<open>The store a method leaves behind, whether it returned or raised.\<close>

fun graph_of :: "error \<times> graph + graph \<Rightarrow> graph" where
  "graph_of (Inl (e, g)) = g"
| "graph_of (Inr g) = g"

section \<open>The importer\<close>

subsection \<open>\<^verbatim>\<open>create_constraints_and_indexes\<close>\<close>

text \<open>
  A uniqueness constraint on \<open>(l, k)\<close> holds in a store when no two nodes with label
  \<open>l\<close> have equal values of \<open>k\<close>: whatever matches the value of a node is that node.
\<close>

definition unique_on :: "graph \<Rightarrow> string \<times> string \<Rightarrow> bool" where
  "unique_on g c =
     (case c of (l, k) \<Rightarrow>
        list_all (\<lambda>i. l \<in> set (labels (nodes g ! i)) \<longrightarrow>
                    list_all (\<lambda>j. j = i) (match_nodes g l k (get_prop (props (nodes g ! i)) k)))
          [0..<length (nodes g)])"

text \<open>
  \<^verbatim>\<open>CREATE CONSTRAINT ... IF NOT EXISTS FOR (x:l) REQUIRE x.k IS UNIQUE\<close>: nothing happens
  when the constraint is there; it is refused when an index is declared on the same
  label and property or when the data already break it. Constraints and indexes are
  known by label and property; their names are not modelled.
\<close>

definition create_constraint :: "string \<times> string \<Rightarrow> graph \<Rightarrow> error + graph" where
  "create_constraint c g =
     (if c \<in> set (constraints g) then Inr g
      else if c \<in> set (indexes g) \<or> \<not> unique_on g c then Inl SchemaError
      else Inr (g\<lparr>constraints := constraints g @ [c]\<rparr>))"

text \<open>\<^verbatim>\<open>CREATE INDEX ... IF NOT EXISTS FOR (x:l) ON (x.k)\<close>.\<close>

definition create_index :: "string \<times> string \<Rightarrow> graph \<Rightarrow> error + graph" where
  "create_index c g =
     (if c \<in> set (indexes g) then Inr g
      else if c \<in> set (constraints g) then Inl SchemaError
      else Inr (g\<lparr>indexes := indexes g @ [c]\<rparr>))"

definition create_constraints_and_indexes :: "graph \<Rightarrow> error \<times> graph + graph" where
  "create_constraints_and_indexes g =
     run_each (\<lambda>stmt. stmt)
       [create_constraint (''Food'', ''fdcId''),
        create_constraint (''Nutrient'', ''id''),
        create_constraint (''FoodCategory'', ''id''),
        create_index (''Food'', ''description''),
        create_index (''Nutrient'', ''name'')] g"

subsection \<open>\<^verbatim>\<open>load_json_data\<close>\<close>

text \<open>
  The file system (a map from paths to contents) and \<^verbatim>\<open>json.load\<close> (\<open>None\<close> on text
  that is not JSON) are parameters. The progress line evaluates
  \<^verbatim>\<open>len(data['FoundationFoods'])\<close> before the document is returned.
\<close>

definition load_json_data ::
  "(string \<Rightarrow> string option) \<Rightarrow> (string \<Rightarrow> json option) \<Rightarrow> string \<Rightarrow> error + json" where
  "load_json_data fs json_load filepath =
     (case fs filepath of
        None \<Rightarrow> Inl FileNotFoundError
      | Some text \<Rightarrow>
          (case json_load text of
             None \<Rightarrow> Inl JSONDecodeError
           | Some data \<Rightarrow>
               and_then (py_getitem data ''FoundationFoods'') (\<lambda>foods.
               and_then (py_len foods) (\<lambda>n. Inr data))))"

subsection \<open>\<^verbatim>\<open>create_nutrients\<close>\<close>

text \<open>\<^verbatim>\<open>food.get('foodNutrients', [])\<close>, as the list the \<^verbatim>\<open>for\<close> loop runs over.\<close>

definition food_nutrients :: "json \<Rightarrow> error + json list" where
  "food_nutrients food = and_then (py_get food ''foodNutrients'' (JArr [])) py_iter"

text \<open>
  The dict \<^verbatim>\<open>nutrients\<close> is an association list in insertion order. The body of the inner
  loop, \<^verbatim>\<open>nutrients[nutrient['id']] = nutrient\<close>, replaces the value of a key that is already
  there and appends a new key at the end.
\<close>

definition collect_entry :: "json \<Rightarrow> (pykey \<times> json) list \<Rightarrow> error + (pykey \<times> json) list" where
  "collect_entry fn d =
     and_then (py_getitem fn ''nutrient'') (\<lambda>nutrient.
     and_then (py_getitem nutrient ''id'') (\<lambda>i.
     and_then (py_key i) (\<lambda>k. Inr (AList.update k nutrient d))))"

definition collect_food :: "json \<Rightarrow> (pykey \<times> json) list \<Rightarrow> error + (pykey \<times> json) list" where
  "collect_food food d = and_then (food_nutrients food) (\<lambda>fns. foldM collect_entry fns d)"

definition collect_nutrients :: "json list \<Rightarrow> error + (pykey \<times> json) list" where
  "collect_nutrients foods = foldM collect_food foods []"

text \<open>
  One row of \<^verbatim>\<open>UNWIND $nutrients AS nutrient MERGE (n:Nutrient {id: nutrient.id})
  ON CREATE SET n.name = nutrient.name, ...\<close>.
\<close>

definition nutrient_on_create :: "json \<Rightarrow> (string \<times> (error + json)) list" where
  "nutrient_on_create nutrient =
     [(''name'', cy_prop nutrient ''name''),
      (''number'', cy_prop nutrient ''number''),
      (''unitName'', cy_prop nutrient ''unitName''),
      (''rank'', cy_prop nutrient ''rank'')]"

definition nutrient_row :: "json \<Rightarrow> graph \<Rightarrow> error + graph" where
  "nutrient_row nutrient g =
     and_then (cy_prop nutrient ''id'') (\<lambda>v.
     and_then (merge_node g ''Nutrient'' ''id'' v (nutrient_on_create nutrient))
       (\<lambda>(g', ns). Inr g'))"

definition nutrient_stmt :: "json list \<Rightarrow> graph \<Rightarrow> error + graph" where
  "nutrient_stmt batch g = foldM nutrient_row batch g"

definition create_nutrients :: "json list \<Rightarrow> graph \<Rightarrow> error \<times> graph + graph" where
  "create_nutrients foods g =
     (case collect_nutrients foods of
        Inl e \<Rightarrow> Inl (e, g)
      | Inr d \<Rightarrow> run_each nutrient_stmt (batches NUTRIENT_BATCH_SIZE (map snd d)) g)"

subsection \<open>\<^verbatim>\<open>create_foods_and_categories\<close>\<close>

text \<open>
  One row of the statement: the category is merged, then for every node the merge bound
  a Food node is created, its properties are set, and it is linked to the category.
\<close>

definition food_props :: "json \<Rightarrow> (string \<times> (error + json)) list" where
  "food_props food =
     [(''fdcId'', cy_prop food ''fdcId''),
      (''description'', cy_prop food ''description''),
      (''foodClass'', cy_prop food ''foodClass''),
      (''dataType'', cy_prop food ''dataType''),
      (''ndbNumber'', cy_prop food ''ndbNumber''),
      (''publicationDate'', cy_prop food ''publicationDate'')]"

definition create_food :: "json \<Rightarrow> nat \<Rightarrow> graph \<Rightarrow> error + graph" where
  "create_food food fc g =
     and_then (eval_props (food_props food)) (\<lambda>ps.
     and_then (create_node g [''Food''] ps) (\<lambda>(g', f).
     Inr (create_rel g' ''BELONGS_TO'' f fc [])))"

definition category_on_create :: "json \<Rightarrow> (string \<times> (error + json)) list" where
  "category_on_create food =
     [(''code'', and_then (cy_prop food ''foodCategory'') (\<lambda>c. cy_prop c ''code'')),
      (''description'',
         and_then (cy_prop food ''foodCategory'') (\<lambda>c. cy_prop c ''description''))]"

definition food_row :: "json \<Rightarrow> graph \<Rightarrow> error + graph" where
  "food_row food g =
     and_then (and_then (cy_prop food ''foodCategory'') (\<lambda>c. cy_prop c ''id'')) (\<lambda>v.
     and_then (merge_node g ''FoodCategory'' ''id'' v (category_on_create food))
       (\<lambda>(g', fcs). foldM (create_food food) fcs g'))"

definition food_stmt :: "json list \<Rightarrow> graph \<Rightarrow> error + graph" where
  "food_stmt batch g = foldM food_row batch g"

definition create_foods_and_categories :: "json list \<Rightarrow> graph \<Rightarrow> error \<times> graph + graph" where
  "create_foods_and_categories foods g =
     run_each food_stmt (batches FOOD_BATCH_SIZE foods) g"

subsection \<open>\<^verbatim>\<open>create_nutrient_relationships\<close>\<close>

text \<open>The dict appended to \<^verbatim>\<open>nutrients_data\<close> for one entry of \<^verbatim>\<open>foodNutrients\<close>.\<close>

definition nutrient_data :: "json \<Rightarrow> error + json" where
  "nutrient_data fn =
     and_then (and_then (py_getitem fn ''nutrient'') (\<lambda>n. py_getitem n ''id'')) (\<lambda>nutrient_id.
     and_then (py_get fn ''amount'' JNull) (\<lambda>amount.
     and_then (py_get fn ''dataPoints'' JNull) (\<lambda>dataPoints.
     and_then (and_then (py_get fn ''foodNutrientDerivation'' (JObj []))
                 (\<lambda>d. py_get d ''code'' JNull)) (\<lambda>derivationCode.
     and_then (and_then (py_get fn ''foodNutrientDerivation'' (JObj []))
                 (\<lambda>d. py_get d ''description'' JNull)) (\<lambda>derivationDescription.
     and_then (py_get fn ''min'' JNull) (\<lambda>min.
     and_then (py_get fn ''max'' JNull) (\<lambda>max.
     and_then (py_get fn ''median'' JNull) (\<lambda>median.
     Inr (JObj
       [(''nutrient_id'', nutrient_id),
        (''amount'', amount),
        (''dataPoints'', dataPoints),
        (''derivationCode'', derivationCode),
        (''derivationDescription'', derivationDescription),
        (''min'', min),
        (''max'', max),
        (''median'', median)])))))))))"

text \<open>The properties set on a new \<^verbatim>\<open>HAS_NUTRIENT\<close> relationship.\<close>

definition measurement_props ::
  "(int \<Rightarrow> rat) \<Rightarrow> (string \<Rightarrow> rat option) \<Rightarrow> json \<Rightarrow> (string \<times> (error + json)) list" where
  "measurement_props i2f s2f nutrientData =
     [(''amount'', and_then (cy_prop nutrientData ''amount'') (toFloat i2f s2f)),
      (''dataPoints'', cy_prop nutrientData ''dataPoints''),
      (''derivationCode'', cy_prop nutrientData ''derivationCode''),
      (''derivationDescription'', cy_prop nutrientData ''derivationDescription''),
      (''min'', and_then (cy_prop nutrientData ''min'') (toFloat i2f s2f)),
      (''max'', and_then (cy_prop nutrientData ''max'') (toFloat i2f s2f)),
      (''median'', and_then (cy_prop nutrientData ''median'') (toFloat i2f s2f))]"

definition create_measurement ::
  "(int \<Rightarrow> rat) \<Rightarrow> (string \<Rightarrow> rat option) \<Rightarrow> nat \<Rightarrow> json \<Rightarrow> nat \<Rightarrow> graph \<Rightarrow> error + graph" where
  "create_measurement i2f s2f f nutrientData n g =
     and_then (eval_props (measurement_props i2f s2f nutrientData)) (\<lambda>ps.
     Inr (create_rel g ''HAS_NUTRIENT'' f n ps))"

text \<open>
  The rows of the statement for one Food node \<open>f\<close> and one element of \<^verbatim>\<open>$nutrients\<close>: one
  per Nutrient node that matches \<^verbatim>\<open>nutrientData.nutrient_id\<close>.
\<close>

definition measurement_row ::
  "(int \<Rightarrow> rat) \<Rightarrow> (string \<Rightarrow> rat option) \<Rightarrow> nat \<Rightarrow> json \<Rightarrow> graph \<Rightarrow> error + graph" where
  "measurement_row i2f s2f f nutrientData g =
     and_then (cy_prop nutrientData ''nutrient_id'') (\<lambda>v.
     foldM (create_measurement i2f s2f f nutrientData) (match_nodes g ''Nutrient'' ''id'' v) g)"

text \<open>
  \<^verbatim>\<open>MATCH (f:Food {fdcId: $fdcId}) UNWIND $nutrients AS nutrientData
  MATCH (n:Nutrient {id: nutrientData.nutrient_id}) CREATE (f)-[r:HAS_NUTRIENT]->(n) SET ...\<close>
\<close>

definition measurement_stmt ::
  "(int \<Rightarrow> rat) \<Rightarrow> (string \<Rightarrow> rat option) \<Rightarrow> json \<Rightarrow> json list \<Rightarrow> graph \<Rightarrow> error + graph" where
  "measurement_stmt i2f s2f fdcId nutrients_data g =
     foldM (\<lambda>f. foldM (measurement_row i2f s2f f) nutrients_data)
       (match_nodes g ''Food'' ''fdcId'' fdcId) g"

text \<open>The body of the loop over the foods: build \<^verbatim>\<open>nutrients_data\<close>, then run the statement.\<close>

definition food_measurements ::
  "(int \<Rightarrow> rat) \<Rightarrow> (string \<Rightarrow> rat option) \<Rightarrow> json \<Rightarrow> graph \<Rightarrow> error + graph" where
  "food_measurements i2f s2f food g =
     and_then (food_nutrients food) (\<lambda>fns.
     and_then (mapM nutrient_data fns) (\<lambda>nutrients_data.
     and_then (py_getitem food ''fdcId'') (\<lambda>fdcId.
     measurement_stmt i2f s2f fdcId nutrients_data g)))"

definition create_nutrient_relationships ::
  "(int \<Rightarrow> rat) \<Rightarrow> (string \<Rightarrow> rat option) \<Rightarrow> json list \<Rightarrow> graph \<Rightarrow> error \<times> graph + graph" where
  "create_nutrient_relationships i2f s2f foods g =
     run_each (food_measurements i2f s2f) foods g"

subsection \<open>\<^verbatim>\<open>verify_import\<close>\<close>


definition count_rels :: "graph \<Rightarrow> string \<Rightarrow> nat" where
  "count_rels g t = length (filter (\<lambda>r. rtype r = t) (rels g))"

subsection \<open>\<^verbatim>\<open>run_import\<close>\<close>

text \<open>
  The phases in sequence; the \<^verbatim>\<open>except\<close> clause prints and re-raises, so the first
  exception ends the run. The methods receive \<^verbatim>\<open>data['FoundationFoods']\<close> and iterate
  over it.
\<close>

definition run_import ::
  "(string \<Rightarrow> string option) \<Rightarrow> (string \<Rightarrow> json option) \<Rightarrow> (int \<Rightarrow> rat) \<Rightarrow>
   (string \<Rightarrow> rat option) \<Rightarrow> string \<Rightarrow> graph \<Rightarrow> error \<times> graph + graph" where
  "run_import fs json_load i2f s2f json_file g =
     (case and_then (load_json_data fs json_load json_file)
             (\<lambda>data. py_getitem data ''FoundationFoods'') of
        Inl e \<Rightarrow> Inl (e, g)
      | Inr fv \<Rightarrow>
          (case create_constraints_and_indexes g of
             Inl r \<Rightarrow> Inl r
           | Inr g1 \<Rightarrow>
               (case py_iter fv of
                  Inl e \<Rightarrow> Inl (e, g1)
                | Inr foods \<Rightarrow>
                    (case create_nutrients foods g1 of
                       Inl r \<Rightarrow> Inl r
                     | Inr g2 \<Rightarrow>
                         (case create_foods_and_categories foods g2 of
                            Inl r \<Rightarrow> Inl r
                          | Inr g3 \<Rightarrow> create_nutrient_relationships i2f s2f foods g3)))))"

section \<open>Notions used in the statements\<close>

subsection \<open>Nutrient occurrences\<close>

text \<open>
  What one entry of \<^verbatim>\<open>foodNutrients\<close> contributes to the dict: the key its identifier
  hashes to, and the nutrient object. \<open>all_entries\<close> lists the occurrences of all foods
  in input order; it raises where the scan of \<^verbatim>\<open>create_nutrients\<close> raises. Two
  identifiers are the same identifier when they are the same dict key.
\<close>

definition entry_of :: "json \<Rightarrow> error + pykey \<times> json" where
  "entry_of fn =
     and_then (py_getitem fn ''nutrient'') (\<lambda>nutrient.
     and_then (py_getitem nutrient ''id'') (\<lambda>i.
     and_then (py_key i) (\<lambda>k. Inr (k, nutrient))))"

definition food_entries :: "json \<Rightarrow> error + (pykey \<times> json) list" where
  "food_entries food = and_then (food_nutrients food) (mapM entry_of)"

definition all_entries :: "json list \<Rightarrow> error + (pykey \<times> json) list" where
  "all_entries foods = and_then (mapM food_entries foods) (\<lambda>ess. Inr (concat ess))"

text \<open>The dict after the assignments \<^verbatim>\<open>d[k] = v\<close> for the pairs of \<open>es\<close>, in order.\<close>

definition dict_of :: "(pykey \<times> json) list \<Rightarrow> (pykey \<times> json) list \<Rightarrow> (pykey \<times> json) list" where
  "dict_of es d = fold (\<lambda>e. AList.update (fst e) (snd e)) es d"

text \<open>The key of an entry is the key of the identifier its nutrient object carries.\<close>

definition entry_ok :: "pykey \<times> json \<Rightarrow> bool" where
  "entry_ok e = (\<exists>i. py_getitem (snd e) ''id'' = Inr i \<and> py_key i = Inr (fst e))"

subsection \<open>Nutrient nodes\<close>

text \<open>The store \<open>g'\<close> is \<open>g\<close> with nodes added at the end and nothing else changed.\<close>

definition grows :: "graph \<Rightarrow> graph \<Rightarrow> bool" where
  "grows g g' = (\<exists>new. g' = g\<lparr>nodes := nodes g @ new\<rparr>)"

text \<open>A Nutrient node with the identifier of the nutrient object is in the store.\<close>

definition nutrient_present :: "graph \<Rightarrow> json \<Rightarrow> bool" where
  "nutrient_present g nutrient =
     (case cy_prop nutrient ''id'' of
        Inl e \<Rightarrow> False
      | Inr v \<Rightarrow> v \<noteq> JNull \<and> match_nodes g ''Nutrient'' ''id'' v \<noteq> [])"

text \<open>
  The node \<open>n\<close> is what the statement creates for the nutrient object: a Nutrient node
  with the object's \<^verbatim>\<open>id\<close>, \<^verbatim>\<open>name\<close>, \<^verbatim>\<open>number\<close>, \<^verbatim>\<open>unitName\<close> and \<^verbatim>\<open>rank\<close>.
\<close>

definition nutrient_node_of :: "json \<Rightarrow> node \<Rightarrow> bool" where
  "nutrient_node_of nutrient n =
     (labels n = [''Nutrient''] \<and>
      eval_props ((''id'', cy_prop nutrient ''id'') # nutrient_on_create nutrient) = Inr (props n))"

text \<open>
  What \<^verbatim>\<open>MERGE ... ON CREATE SET\<close> may do to a store: nodes are added at the end, each
  a Nutrient node whose identifier no Nutrient node of \<open>g\<close> had; nothing that was in
  \<open>g\<close> is changed.
\<close>

definition merges_only :: "graph \<Rightarrow> graph \<Rightarrow> bool" where
  "merges_only g g' =
     (\<exists>new. g' = g\<lparr>nodes := nodes g @ new\<rparr> \<and>
            (\<forall>n \<in> set new. labels n = [''Nutrient''] \<and>
               match_nodes g ''Nutrient'' ''id'' (get_prop (props n) ''id'') = []))"

subsection \<open>Referential integrity\<close>

text \<open>
  Every \<^verbatim>\<open>HAS_NUTRIENT\<close> relationship of the store starts at a node of the store labelled
  Food and ends at a node of the store labelled Nutrient.
\<close>

definition ref_ok :: "graph \<Rightarrow> bool" where
  "ref_ok g =
     (\<forall>r \<in> set (rels g). rtype r = ''HAS_NUTRIENT'' \<longrightarrow>
        src r < length (nodes g) \<and> dst r < length (nodes g) \<and>
        ''Food'' \<in> set (labels (nodes g ! src r)) \<and>
        ''Nutrient'' \<in> set (labels (nodes g ! dst r)))"

text \<open>
  The stores the loader can produce: it starts on a store without measurements, and
  each of its four writing methods may run on any input and may return or raise; when
  it raises, the store is as its committed statements left it.
\<close>

inductive reachable :: "graph \<Rightarrow> bool" where
  start: "count_rels g ''HAS_NUTRIENT'' = 0 \<Longrightarrow> reachable g"
| constraints: "reachable g \<Longrightarrow> reachable (graph_of (create_constraints_and_indexes g))"
| nutrients: "reachable g \<Longrightarrow> reachable (graph_of (create_nutrients foods g))"
| foods: "reachable g \<Longrightarrow> reachable (graph_of (create_foods_and_categories foods g))"
| measurements:
    "reachable g \<Longrightarrow> reachable (graph_of (create_nutrient_relationships i2f s2f foods g))"

text \<open>
  What \<^verbatim>\<open>create_nutrient_relationships\<close> may do to a store: relationships are added at the
  end, each a \<^verbatim>\<open>HAS_NUTRIENT\<close> relationship from a Food node of \<open>g\<close> to a Nutrient node
  of \<open>g\<close>; nothing else changes.
\<close>

definition links_only :: "graph \<Rightarrow> graph \<Rightarrow> bool" where
  "links_only g g' =
     (\<exists>new. g' = g\<lparr>rels := rels g @ new\<rparr> \<and>
        (\<forall>r \<in> set new. rtype r = ''HAS_NUTRIENT'' \<and>
           src r < length (nodes g) \<and> dst r < length (nodes g) \<and>
           ''Food'' \<in> set (labels (nodes g ! src r)) \<and>
           ''Nutrient'' \<in> set (labels (nodes g ! dst r))))"

subsection \<open>Measurements\<close>

text \<open>\<^verbatim>\<open>fn.get(k)\<close> for a dict \<open>fn\<close>: the value of the key, null (\<^verbatim>\<open>None\<close>) when it is absent.\<close>

definition entry_field :: "json \<Rightarrow> string \<Rightarrow> json" where
  "entry_field fn k = (case fn of JObj kvs \<Rightarrow> get_prop kvs k | _ \<Rightarrow> JNull)"

text \<open>\<^verbatim>\<open>fn.get('foodNutrientDerivation', {}).get(k)\<close> for a dict \<open>fn\<close>.\<close>

definition derivation_field :: "json \<Rightarrow> string \<Rightarrow> json" where
  "derivation_field fn k =
     (case fn of
        JObj kvs \<Rightarrow>
          (case map_of kvs ''foodNutrientDerivation'' of
             None \<Rightarrow> JNull
           | Some d \<Rightarrow> entry_field d k)
      | _ \<Rightarrow> JNull)"

text \<open>\<^verbatim>\<open>fn['nutrient']['id']\<close>, where it is defined.\<close>

definition nutrient_id_of :: "json \<Rightarrow> json" where
  "nutrient_id_of fn = entry_field (entry_field fn ''nutrient'') ''id''"

text \<open>The values \<^verbatim>\<open>toFloat\<close> accepts: null, a number or a string.\<close>

fun convertible :: "json \<Rightarrow> bool" where
  "convertible JNull = True"
| "convertible (JInt n) = True"
| "convertible (JFloat r) = True"
| "convertible (JStr s) = True"
| "convertible _ = False"

text \<open>The values \<^verbatim>\<open>SET\<close> accepts: null, or a value that can be stored.\<close>

definition plain :: "json \<Rightarrow> bool" where
  "plain v = (v = JNull \<or> storable v)"

text \<open>
  An entry of \<^verbatim>\<open>foodNutrients\<close> that the statement can link: the Python part builds its
  dict, exactly one Nutrient node has its identifier, and its fields are values the
  statement accepts.
\<close>

definition entry_ready :: "graph \<Rightarrow> json \<Rightarrow> bool" where
  "entry_ready g fn =
     ((case nutrient_data fn of Inl e \<Rightarrow> False | Inr nd \<Rightarrow> True) \<and>
      length (match_nodes g ''Nutrient'' ''id'' (nutrient_id_of fn)) = 1 \<and>
      convertible (entry_field fn ''amount'') \<and>
      convertible (entry_field fn ''min'') \<and>
      convertible (entry_field fn ''max'') \<and>
      convertible (entry_field fn ''median'') \<and>
      plain (entry_field fn ''dataPoints'') \<and>
      plain (derivation_field fn ''code'') \<and>
      plain (derivation_field fn ''description''))"

text \<open>The entries of a food, the empty list where the scan raises.\<close>

definition entries :: "json \<Rightarrow> json list" where
  "entries food = (case food_nutrients food of Inl e \<Rightarrow> [] | Inr fns \<Rightarrow> fns)"

text \<open>A food all of whose entries are ready and that has exactly one Food node.\<close>

definition food_ready :: "graph \<Rightarrow> json \<Rightarrow> bool" where
  "food_ready g food =
     ((case food_nutrients food of Inl e \<Rightarrow> False | Inr fns \<Rightarrow> list_all (entry_ready g) fns) \<and>
      length (match_nodes g ''Food'' ''fdcId'' (entry_field food ''fdcId'')) = 1)"

text \<open>The Food node of a food that is ready.\<close>

definition food_node :: "graph \<Rightarrow> json \<Rightarrow> nat" where
  "food_node g food = hd (match_nodes g ''Food'' ''fdcId'' (entry_field food ''fdcId''))"

text \<open>
  The relationship \<open>r\<close> is the measurement of the entry \<open>fn\<close> for the Food node \<open>f\<close>:
  it runs from \<open>f\<close> to the Nutrient node of the entry; \<^verbatim>\<open>amount\<close>, \<^verbatim>\<open>min\<close>, \<^verbatim>\<open>max\<close> and
  \<^verbatim>\<open>median\<close> are the entry's values under \<^verbatim>\<open>toFloat\<close>; \<^verbatim>\<open>dataPoints\<close> and the derivation
  code and description are the entry's values as they are. A property that reads null
  is not set.
\<close>

definition measurement_of ::
  "(int \<Rightarrow> rat) \<Rightarrow> (string \<Rightarrow> rat option) \<Rightarrow> graph \<Rightarrow> nat \<Rightarrow> json \<Rightarrow> rel \<Rightarrow> bool" where
  "measurement_of i2f s2f g f fn r =
     (rtype r = ''HAS_NUTRIENT'' \<and> src r = f \<and>
      match_nodes g ''Nutrient'' ''id'' (nutrient_id_of fn) = [dst r] \<and>
      toFloat i2f s2f (entry_field fn ''amount'') = Inr (get_prop (rprops r) ''amount'') \<and>
      toFloat i2f s2f (entry_field fn ''min'') = Inr (get_prop (rprops r) ''min'') \<and>
      toFloat i2f s2f (entry_field fn ''max'') = Inr (get_prop (rprops r) ''max'') \<and>
      toFloat i2f s2f (entry_field fn ''median'') = Inr (get_prop (rprops r) ''median'') \<and>
      get_prop (rprops r) ''dataPoints'' = entry_field fn ''dataPoints'' \<and>
      get_prop (rprops r) ''derivationCode'' = derivation_field fn ''code'' \<and>
      get_prop (rprops r) ''derivationDescription'' = derivation_field fn ''description'')"

subsection \<open>Category links\<close>

text \<open>\<^verbatim>\<open>food.foodCategory.id\<close>, the value the category is merged on.\<close>

definition category_id :: "json \<Rightarrow> error + json" where
  "category_id food = and_then (cy_prop food ''foodCategory'') (\<lambda>c. cy_prop c ''id'')"

text \<open>The node \<open>n\<close> is what the statement creates for the food record.\<close>

definition food_node_of :: "json \<Rightarrow> node \<Rightarrow> bool" where
  "food_node_of food n = (labels n = [''Food''] \<and> eval_props (food_props food) = Inr (props n))"

text \<open>
  The relationship \<open>r\<close> is the category link of the food record among the nodes \<open>ns\<close>:
  a \<^verbatim>\<open>BELONGS_TO\<close> relationship from the node of the record to a FoodCategory node with
  the record's category identifier.
\<close>

definition belongs_to_of :: "node list \<Rightarrow> json \<Rightarrow> rel \<Rightarrow> bool" where
  "belongs_to_of ns food r =
     (rtype r = ''BELONGS_TO'' \<and> rprops r = [] \<and>
      src r < length ns \<and> food_node_of food (ns ! src r) \<and>
      dst r < length ns \<and>
      (case category_id food of
         Inl e \<Rightarrow> False
       | Inr v \<Rightarrow> node_matches ''FoodCategory'' ''id'' v (ns ! dst r)))"

subsection \<open>Documents\<close>

text \<open>The values \<^verbatim>\<open>len\<close> accepts: a list, a string or a dict.\<close>

fun sized :: "json \<Rightarrow> bool" where
  "sized (JArr xs) = True"
| "sized (JStr s) = True"
| "sized (JObj kvs) = True"
| "sized _ = False"

subsection \<open>Inputs on which \<^verbatim>\<open>create_nutrients\<close> returns\<close>



subsection \<open>Stores that satisfy their constraints\<close>

text \<open>
  The database keeps every uniqueness constraint declared on it: a constraint is only
  accepted on data that satisfy it, and a write that would break one is refused. A store
  is consistent when each of its constraints holds in it.
\<close>

definition consistent :: "graph \<Rightarrow> bool" where
  "consistent g = list_all (unique_on g) (constraints g)"

text \<open>The constraints that \<^verbatim>\<open>create_constraints_and_indexes\<close> declares.\<close>

definition loader_constraints :: "(string \<times> string) list" where
  "loader_constraints =
     [(''Food'', ''fdcId''), (''Nutrient'', ''id''), (''FoodCategory'', ''id'')]"

subsection \<open>Inputs on which \<^verbatim>\<open>create_foods_and_categories\<close> returns\<close>

text \<open>\<^verbatim>\<open>food.fdcId\<close>, null when the record has none.\<close>

definition fdc_id :: "json \<Rightarrow> json" where
  "fdc_id food = (case cy_prop food ''fdcId'' of Inl e \<Rightarrow> JNull | Inr v \<Rightarrow> v)"

text \<open>
  A food record the statement can write: \<^verbatim>\<open>food.foodCategory.id\<close> evaluates and is not
  null, and the properties of the category and of the food are null or values that can
  be stored.
\<close>

definition food_wf :: "json \<Rightarrow> bool" where
  "food_wf food =
     ((case category_id food of
         Inl e \<Rightarrow> False
       | Inr v \<Rightarrow>
           v \<noteq> JNull \<and>
           (case eval_props ((''id'', Inr v) # category_on_create food) of
              Inl e \<Rightarrow> False
            | Inr ps \<Rightarrow> True)) \<and>
      (case eval_props (food_props food) of Inl e \<Rightarrow> False | Inr ps \<Rightarrow> True))"

subsection \<open>Food records already in the store\<close>

text \<open>
  The store holds what the statement wrote for the record: a FoodCategory node with the
  record's category identifier, and, when the record has an \<^verbatim>\<open>fdcId\<close>, a Food node with
  it; the properties of the food evaluate.
\<close>

definition food_written :: "graph \<Rightarrow> json \<Rightarrow> bool" where
  "food_written s food =
     ((case category_id food of
         Inl e \<Rightarrow> False
       | Inr v \<Rightarrow> v \<noteq> JNull \<and> match_nodes s ''FoodCategory'' ''id'' v \<noteq> []) \<and>
      (case eval_props (food_props food) of Inl e \<Rightarrow> False | Inr ps \<Rightarrow> True) \<and>
      (fdc_id food = JNull \<or> match_nodes s ''Food'' ''fdcId'' (fdc_id food) \<noteq> []))"

section \<open>Example data\<close>

text \<open>
  Two foods of one category that reference the same nutrient identifier, the second
  with a different name for it.
\<close>

definition protein :: json where
  "protein = JObj [(''id'', JInt 1003), (''name'', JStr ''Protein''), (''unitName'', JStr ''g'')]"

definition protein_renamed :: json where
  "protein_renamed = JObj [(''id'', JInt 1003), (''name'', JStr ''Eiweiss'')]"

definition fruits :: json where
  "fruits = JObj [(''id'', JInt 9), (''code'', JStr ''0900''), (''description'', JStr ''Fruits'')]"

definition apple :: json where
  "apple = JObj
     [(''fdcId'', JInt 1), (''description'', JStr ''apple''), (''foodCategory'', fruits),
      (''foodNutrients'',
         JArr [JObj [(''nutrient'', protein), (''amount'', JInt 3), (''dataPoints'', JInt 4)]])]"

definition pear :: json where
  "pear = JObj
     [(''fdcId'', JInt 2), (''description'', JStr ''pear''), (''foodCategory'', fruits),
      (''foodNutrients'', JArr [JObj [(''nutrient'', protein_renamed), (''min'', JFloat (1 / 2))]])]"

definition protein_node :: node where
  "protein_node =
     \<lparr>labels = [''Nutrient''], props = [(''id'', JInt 1003), (''name'', JStr ''Eiweiss'')]\<rparr>"

text \<open>A food record without the \<^verbatim>\<open>foodNutrients\<close> key.\<close>

definition plum_fields :: "(string \<times> json) list" where
  "plum_fields = [(''fdcId'', JInt 3), (''description'', JStr ''plum''), (''foodCategory'', fruits)]"

text \<open>Five files and what \<^verbatim>\<open>json.load\<close> makes of their contents.\<close>

definition example_files :: "string \<Rightarrow> string option" where
  "example_files p =
     (if p = ''broken.json'' then Some ''{''
      else if p = ''other.json'' then Some ''{}''
      else if p = ''list.json'' then Some ''[{}]''
      else if p = ''null.json'' then Some ''(null under the key)''
      else if p = ''foods.json'' then Some ''(the document)''
      else None)"

definition example_json_load :: "string \<Rightarrow> json option" where
  "example_json_load text =
     (if text = ''{}'' then Some (JObj [])
      else if text = ''[{}]'' then Some (JArr [JObj []])
      else if text = ''(null under the key)'' then Some (JObj [(''FoundationFoods'', JNull)])
      else if text = ''(the document)''
        then Some (JObj [(''FoundationFoods'', JArr [apple, pear])])
      else None)"

text \<open>The store after the import of \<^verbatim>\<open>apple\<close> and \<^verbatim>\<open>pear\<close> into an empty database.\<close>

definition imported_graph :: graph where
  "imported_graph =
     \<lparr>nodes =
        [protein_node,
         \<lparr>labels = [''FoodCategory''],
          props = [(''id'', JInt 9), (''code'', JStr ''0900''), (''description'', JStr ''Fruits'')]\<rparr>,
         \<lparr>labels = [''Food''], props = [(''fdcId'', JInt 1), (''description'', JStr ''apple'')]\<rparr>,
         \<lparr>labels = [''Food''], props = [(''fdcId'', JInt 2), (''description'', JStr ''pear'')]\<rparr>],
      rels =
        [\<lparr>rtype = ''BELONGS_TO'', src = 2, dst = 1, rprops = []\<rparr>,
         \<lparr>rtype = ''BELONGS_TO'', src = 3, dst = 1, rprops = []\<rparr>,
         \<lparr>rtype = ''HAS_NUTRIENT'', src = 2, dst = 0,
          rprops = [(''amount'', JFloat 3), (''dataPoints'', JInt 4)]\<rparr>,
         \<lparr>rtype = ''HAS_NUTRIENT'', src = 3, dst = 0, rprops = [(''min'', JFloat (1 / 2))]\<rparr>],
      constraints = [(''Food'', ''fdcId''), (''Nutrient'', ''id''), (''FoodCategory'', ''id'')],
      indexes = [(''Food'', ''description''), (''Nutrient'', ''name'')]\<rparr>"

text \<open>The same store before \<^verbatim>\<open>create_nutrient_relationships\<close> has run.\<close>

definition foods_graph :: graph where
  "foods_graph = imported_graph\<lparr>rels := take 2 (rels imported_graph)\<rparr>"

text \<open>The same store before \<^verbatim>\<open>create_foods_and_categories\<close> has run.\<close>

definition nutrients_graph :: graph where
  "nutrients_graph = imported_graph\<lparr>nodes := [protein_node], rels := []\<rparr>"

text \<open>
  A record for the Food node of \<^verbatim>\<open>apple\<close> with two entries: one for \<^verbatim>\<open>protein\<close> with an
  amount, and the given one.
\<close>

definition apple_with :: "json \<Rightarrow> json" where
  "apple_with fn = JObj
     [(''fdcId'', JInt 1),
      (''foodNutrients'', JArr [JObj [(''nutrient'', protein), (''amount'', JInt 3)], fn])]"

section \<open>Properties of batching\<close>

lemma py_range_step:
  "i < stop \<Longrightarrow> 0 < step \<Longrightarrow> py_range i stop step = i # py_range (i + step) stop step"
  by (subst py_range.simps) simp

lemma py_range_done: "\<not> (i < stop \<and> 0 < step) \<Longrightarrow> py_range i stop step = []"
  by (subst py_range.simps) simp

lemma concat_slices:
  "0 < step \<Longrightarrow>
   concat (map (\<lambda>i. py_slice xs i (i + step)) (py_range i (length xs) step)) = drop i xs"
proof (induction i "length xs" step rule: py_range.induct)
  case (1 i step)
  show ?case
  proof (cases "i < length xs")
    case True
    have "take step (drop i xs) @ drop (i + step) xs = drop i xs"
      by (metis add.commute append_take_drop_id drop_drop)
    with True 1 show ?thesis
      by (simp add: py_range_step py_slice_def)
  next
    case False
    then show ?thesis by (simp add: py_range_done)
  qed
qed

lemma concat_batches: "0 < bsz \<Longrightarrow> concat (batches bsz xs) = xs"
  using concat_slices [of bsz xs 0] by (simp add: batches_def)

lemma py_range_bound: "k \<in> set (py_range i stop step) \<Longrightarrow> k < stop"
proof (induction i stop step rule: py_range.induct)
  case (1 i stop step)
  show ?case
  proof (cases "i < stop \<and> 0 < step")
    case True
    with 1 show ?thesis by (auto simp: py_range_step)
  next
    case False
    with 1 show ?thesis by (simp add: py_range_done)
  qed
qed

lemma batch_length_le: "b \<in> set (batches bsz xs) \<Longrightarrow> length b \<le> bsz"
  by (auto simp: batches_def py_slice_def)

lemma batch_nonempty: "b \<in> set (batches bsz xs) \<Longrightarrow> b \<noteq> []"
proof (cases "0 < bsz")
  case True
  assume "b \<in> set (batches bsz xs)"
  with True show ?thesis
    by (auto simp: batches_def py_slice_def dest: py_range_bound)
next
  case False
  assume "b \<in> set (batches bsz xs)"
  with False show ?thesis
    by (simp add: batches_def py_range_done)
qed

lemma py_range_butlast:
  "0 < step \<Longrightarrow> k \<in> set (butlast (py_range i stop step)) \<Longrightarrow> k + step < stop"
proof (induction i stop step rule: py_range.induct)
  case (1 i stop step)
  show ?case
  proof (cases "i < stop")
    case True
    note lt = this
    show ?thesis
    proof (cases "py_range (i + step) stop step = []")
      case True
      with lt 1 show ?thesis by (simp add: py_range_step)
    next
      case False
      then have "i + step < stop"
        by (metis py_range_done)
      with lt False 1 show ?thesis by (auto simp: py_range_step)
    qed
  next
    case False
    with 1 show ?thesis by (simp add: py_range_done)
  qed
qed

lemma batch_butlast_full:
  assumes "0 < bsz" and "b \<in> set (butlast (batches bsz xs))"
  shows "length b = bsz"
proof -
  from assms(2) obtain k where k: "k \<in> set (butlast (py_range 0 (length xs) bsz))"
    and b: "b = py_slice xs k (k + bsz)"
    by (auto simp: batches_def map_butlast [symmetric])
  from py_range_butlast [OF assms(1) k] have "k + bsz < length xs" .
  with b show ?thesis by (simp add: py_slice_def)
qed

text \<open>
  C8. The nutrient batches (size 1000) and the food batches (size 100) are a partition
  of the list the loop runs over: every batch is within its size, every batch but the
  last is full, and the batches concatenated in submission order are the list itself.
\<close>

theorem batching_partitions:
  "(\<forall>b \<in> set (batches NUTRIENT_BATCH_SIZE ns). length b \<le> 1000) \<and>
   (\<forall>b \<in> set (butlast (batches NUTRIENT_BATCH_SIZE ns)). length b = 1000) \<and>
   concat (batches NUTRIENT_BATCH_SIZE ns) = ns \<and>
   (\<forall>b \<in> set (batches FOOD_BATCH_SIZE fs). length b \<le> 100) \<and>
   (\<forall>b \<in> set (butlast (batches FOOD_BATCH_SIZE fs)). length b = 100) \<and>
   concat (batches FOOD_BATCH_SIZE fs) = fs"
proof -
  have n: "0 < NUTRIENT_BATCH_SIZE" and f: "0 < FOOD_BATCH_SIZE"
    by (simp_all add: NUTRIENT_BATCH_SIZE_def FOOD_BATCH_SIZE_def)
  have "\<forall>b \<in> set (batches NUTRIENT_BATCH_SIZE ns). length b \<le> 1000"
    using batch_length_le [of _ NUTRIENT_BATCH_SIZE ns] by (simp add: NUTRIENT_BATCH_SIZE_def)
  moreover have "\<forall>b \<in> set (butlast (batches NUTRIENT_BATCH_SIZE ns)). length b = 1000"
    using batch_butlast_full [OF n, of _ ns] by (simp add: NUTRIENT_BATCH_SIZE_def)
  moreover have "\<forall>b \<in> set (batches FOOD_BATCH_SIZE fs). length b \<le> 100"
    using batch_length_le [of _ FOOD_BATCH_SIZE fs] by (simp add: FOOD_BATCH_SIZE_def)
  moreover have "\<forall>b \<in> set (butlast (batches FOOD_BATCH_SIZE fs)). length b = 100"
    using batch_butlast_full [OF f, of _ fs] by (simp add: FOOD_BATCH_SIZE_def)
  moreover have "concat (batches NUTRIENT_BATCH_SIZE ns) = ns"
    by (rule concat_batches [OF n])
  moreover have "concat (batches FOOD_BATCH_SIZE fs) = fs"
    by (rule concat_batches [OF f])
  ultimately show ?thesis by blast
qed

theorem batching_partitions_witness:
  "batches FOOD_BATCH_SIZE (replicate 250 JNull) =
     [replicate 100 JNull, replicate 100 JNull, replicate 50 JNull] \<and>
   concat (batches NUTRIENT_BATCH_SIZE (replicate 1001 JNull)) = replicate 1001 JNull \<and>
   concat (batches FOOD_BATCH_SIZE (replicate 250 JNull)) = replicate 250 JNull"
proof -
  have "batches FOOD_BATCH_SIZE (replicate 250 JNull) =
     [replicate 100 JNull, replicate 100 JNull, replicate 50 JNull]"
    by code_simp
  with batching_partitions [of "replicate 1001 JNull" "replicate 250 JNull"]
  show ?thesis by blast
qed

section \<open>Sequencing lemmas\<close>

lemma and_then_Inr: "and_then x f = Inr y \<longleftrightarrow> (\<exists>a. x = Inr a \<and> f a = Inr y)"
  by (cases x) auto

lemma and_then_Inl: "and_then x f = Inl e \<longleftrightarrow> x = Inl e \<or> (\<exists>a. x = Inr a \<and> f a = Inl e)"
  by (cases x) auto

lemma and_then_assoc: "and_then (and_then x f) h = and_then x (\<lambda>a. and_then (f a) h)"
  by (cases x) auto

lemma mapM_Inr_set: "mapM f xs = Inr ys \<Longrightarrow> y \<in> set ys \<Longrightarrow> \<exists>x \<in> set xs. f x = Inr y"
  by (induction xs arbitrary: ys) (auto simp: and_then_Inr)

lemma foldM_append: "foldM f (xs @ ys) s = and_then (foldM f xs s) (foldM f ys)"
proof (induction xs arbitrary: s)
  case Nil
  show ?case by simp
next
  case (Cons x xs)
  show ?case by (cases "f x s") (simp_all add: Cons)
qed

lemma foldM_concat: "foldM (\<lambda>b. foldM f b) bs g = foldM f (concat bs) g"
proof (induction bs arbitrary: g)
  case Nil
  show ?case by simp
next
  case (Cons b bs)
  show ?case by (cases "foldM f b g") (simp_all add: foldM_append Cons)
qed

lemma foldM_noop: "(\<And>x. x \<in> set xs \<Longrightarrow> f x s = Inr s) \<Longrightarrow> foldM f xs s = Inr s"
  by (induction xs) auto

lemma foldM_establish:
  assumes step: "\<And>x s s'. f x s = Inr s' \<Longrightarrow> P x s' \<and> R s s'"
    and mono: "\<And>x s s'. P x s \<Longrightarrow> R s s' \<Longrightarrow> P x s'"
    and refl: "\<And>s. R s s"
    and trans: "\<And>a b c. R a b \<Longrightarrow> R b c \<Longrightarrow> R a c"
  shows "foldM f xs s = Inr s' \<Longrightarrow> (\<forall>x \<in> set xs. P x s') \<and> R s s'"
proof (induction xs arbitrary: s)
  case Nil
  then show ?case by (simp add: refl)
next
  case (Cons x xs)
  from Cons.prems obtain s1 where s1: "f x s = Inr s1" and r: "foldM f xs s1 = Inr s'"
    by (auto simp: and_then_Inr)
  from Cons.IH [OF r] have ih: "\<forall>y \<in> set xs. P y s'" and g: "R s1 s'" by auto
  from step [OF s1] have "P x s1" and "R s s1" by auto
  with g ih show ?case by (auto intro: mono trans)
qed

lemma run_each_Inr: "run_each f xs g = Inr g' \<longleftrightarrow> foldM f xs g = Inr g'"
  by (induction xs arbitrary: g) (auto split: sum.splits)

lemma run_each_append:
  "run_each f (xs @ ys) g =
   (case run_each f xs g of Inl r \<Rightarrow> Inl r | Inr g' \<Rightarrow> run_each f ys g')"
  by (induction xs arbitrary: g) (auto split: sum.splits)

lemma run_each_Inl:
  "run_each f xs g = Inl (e, s) \<Longrightarrow>
   \<exists>xs1 x xs2. xs = xs1 @ x # xs2 \<and> run_each f xs1 g = Inr s \<and> f x s = Inl e"
proof (induction xs arbitrary: g)
  case Nil
  then show ?case by simp
next
  case (Cons y ys)
  show ?case
  proof (cases "f y g")
    case (Inl e')
    with Cons.prems have "e' = e" "s = g" by auto
    with Inl have "y # ys = [] @ y # ys \<and> run_each f [] g = Inr s \<and> f y s = Inl e" by simp
    then show ?thesis by blast
  next
    case (Inr g1)
    with Cons.prems have "run_each f ys g1 = Inl (e, s)" by simp
    from Cons.IH [OF this] obtain xs1 x xs2 where
      "ys = xs1 @ x # xs2" "run_each f xs1 g1 = Inr s" "f x s = Inl e" by blast
    with Inr have "y # ys = (y # xs1) @ x # xs2 \<and> run_each f (y # xs1) g = Inr s \<and> f x s = Inl e"
      by simp
    then show ?thesis by blast
  qed
qed

lemma run_each_idem:
  assumes step: "\<And>x s s'. f x s = Inr s' \<Longrightarrow> P x s' \<and> R s s'"
    and mono: "\<And>x s s'. P x s \<Longrightarrow> R s s' \<Longrightarrow> P x s'"
    and refl: "\<And>s. R s s"
    and trans: "\<And>a b c. R a b \<Longrightarrow> R b c \<Longrightarrow> R a c"
    and noop: "\<And>x s. P x s \<Longrightarrow> f x s = Inr s"
  shows "run_each f xs (graph_of (run_each f xs g)) = run_each f xs g"
proof (cases "run_each f xs g")
  case (Inr g')
  then have "foldM f xs g = Inr g'" by (simp add: run_each_Inr)
  from foldM_establish [of f P R, OF step mono refl trans this]
  have "\<forall>x \<in> set xs. P x g'" by simp
  then have "foldM f xs g' = Inr g'" by (intro foldM_noop noop) simp
  then have "run_each f xs g' = Inr g'" by (simp add: run_each_Inr)
  with Inr show ?thesis by simp
next
  case (Inl r)
  obtain e s where r: "r = (e, s)" by (cases r)
  from run_each_Inl [of f xs g e s] Inl r obtain xs1 x xs2 where
    xs: "xs = xs1 @ x # xs2" and a: "run_each f xs1 g = Inr s" and b: "f x s = Inl e" by auto
  from a have "foldM f xs1 g = Inr s" by (simp add: run_each_Inr)
  from foldM_establish [of f P R, OF step mono refl trans this]
  have "\<forall>y \<in> set xs1. P y s" by simp
  then have "foldM f xs1 s = Inr s" by (intro foldM_noop noop) simp
  then have "run_each f xs1 s = Inr s" by (simp add: run_each_Inr)
  with b xs have "run_each f xs s = Inl (e, s)" by (simp add: run_each_append)
  with Inl r show ?thesis by simp
qed

section \<open>The nutrient dict\<close>

lemma collect_entry_eq:
  "collect_entry fn d = and_then (entry_of fn) (\<lambda>e. Inr (AList.update (fst e) (snd e) d))"
  by (simp add: collect_entry_def entry_of_def and_then_assoc)

lemma foldM_collect_entry:
  "foldM collect_entry fns d = and_then (mapM entry_of fns) (\<lambda>es. Inr (dict_of es d))"
proof (induction fns arbitrary: d)
  case Nil
  show ?case by (simp add: dict_of_def)
next
  case (Cons fn fns)
  show ?case
    by (cases "entry_of fn")
       (simp_all add: collect_entry_eq [of fn d] Cons and_then_assoc dict_of_def)
qed

lemma collect_food_eq:
  "collect_food food d = and_then (food_entries food) (\<lambda>es. Inr (dict_of es d))"
  by (simp add: collect_food_def food_entries_def foldM_collect_entry and_then_assoc)

lemma dict_of_append: "dict_of (es @ fs) d = dict_of fs (dict_of es d)"
  by (simp add: dict_of_def)

lemma foldM_collect_food:
  "foldM collect_food foods d =
   and_then (mapM food_entries foods) (\<lambda>ess. Inr (dict_of (concat ess) d))"
proof (induction foods arbitrary: d)
  case Nil
  show ?case by (simp add: dict_of_def)
next
  case (Cons food foods)
  show ?case
    by (cases "food_entries food")
       (simp_all add: collect_food_eq [of food d] Cons and_then_assoc dict_of_append)
qed

lemma collect_nutrients_eq:
  "collect_nutrients foods = and_then (all_entries foods) (\<lambda>es. Inr (dict_of es []))"
  by (simp add: collect_nutrients_def all_entries_def foldM_collect_food and_then_assoc)

lemma map_of_dict_of: "map_of (dict_of es d) = map_of d ++ map_of (rev es)"
proof (induction es arbitrary: d)
  case Nil
  show ?case by (simp add: dict_of_def)
next
  case (Cons e es)
  have "dict_of (e # es) d = dict_of es (AList.update (fst e) (snd e) d)"
    by (simp add: dict_of_def)
  then show ?case
    by (simp add: Cons update_conv' map_add_upd_left fun_eq_iff map_add_def split: option.splits)
qed

lemma distinct_dict_of: "distinct (map fst d) \<Longrightarrow> distinct (map fst (dict_of es d))"
  by (induction es arbitrary: d) (simp_all add: dict_of_def distinct_update)



lemma set_update_subset: "set (AList.update k v al) \<subseteq> insert (k, v) (set al)"
  by (induction al) auto

lemma set_dict_of: "set (dict_of es d) \<subseteq> set d \<union> set es"
proof (induction es arbitrary: d)
  case Nil
  show ?case by (simp add: dict_of_def)
next
  case (Cons e es)
  have "dict_of (e # es) d = dict_of es (AList.update (fst e) (snd e) d)"
    by (simp add: dict_of_def)
  with Cons [of "AList.update (fst e) (snd e) d"] set_update_subset [of "fst e" "snd e" d]
  show ?case by auto
qed

lemma entry_of_ok: "entry_of fn = Inr e \<Longrightarrow> entry_ok e"
  by (auto simp: entry_of_def entry_ok_def and_then_Inr)

lemma mapM_entry_ok: "mapM entry_of fns = Inr es \<Longrightarrow> \<forall>e \<in> set es. entry_ok e"
  by (auto dest: mapM_Inr_set intro: entry_of_ok)

lemma all_entries_ok:
  assumes "all_entries foods = Inr es"
  shows "\<forall>e \<in> set es. entry_ok e"
proof -
  from assms obtain ess where m: "mapM food_entries foods = Inr ess" and es: "es = concat ess"
    by (auto simp: all_entries_def and_then_Inr)
  have "\<forall>xs \<in> set ess. \<forall>e \<in> set xs. entry_ok e"
  proof
    fix xs assume "xs \<in> set ess"
    with mapM_Inr_set [OF m] obtain food where "food_entries food = Inr xs"
      by blast
    then show "\<forall>e \<in> set xs. entry_ok e"
      by (auto simp: food_entries_def and_then_Inr dest: mapM_entry_ok)
  qed
  with es show ?thesis by auto
qed

section \<open>Matching and merging\<close>

lemma match_nodes_nonempty:
  "match_nodes g l k v \<noteq> [] \<longleftrightarrow> (\<exists>n \<in> set (nodes g). node_matches l k v n)"
proof -
  have "match_nodes g l k v \<noteq> [] \<longleftrightarrow>
        (\<exists>i < length (nodes g). node_matches l k v (nodes g ! i))"
    by (auto simp: match_nodes_def filter_empty_conv)
  then show ?thesis by (simp add: Bex_def in_set_conv_nth) blast
qed

lemma cy_eq_refl_scalar: "scalar_type v \<noteq> None \<Longrightarrow> cy_eq v v"
  by (cases v) auto

lemma cy_eq_refl: "storable v \<Longrightarrow> cy_eq v v"
proof (cases v)
  case (JArr xs)
  assume "storable v"
  with JArr have "list_all (\<lambda>x. scalar_type x \<noteq> None) xs" by simp
  then have "list_all2 cy_eq xs xs"
    by (induction xs) (auto simp: cy_eq_refl_scalar)
  with JArr show ?thesis by simp
qed (auto)

lemma cy_eq_key:
  "cy_eq a b \<Longrightarrow> py_key a = Inr ka \<Longrightarrow> py_key b = Inr kb \<Longrightarrow> ka = kb"
  by (cases a; cases b) auto

lemma eval_props_head:
  "eval_props ((k, Inr v) # r) = Inr ps \<Longrightarrow> v \<noteq> JNull \<Longrightarrow> get_prop ps k = v \<and> storable v"
  by (auto simp: and_then_Inr get_prop_def split: if_splits)

lemma py_getitem_cy_prop: "py_getitem v k = Inr x \<Longrightarrow> cy_prop v k = Inr x"
  by (cases v) (auto simp: get_prop_def split: option.splits)

lemma grows_refl: "grows g g"
  by (auto simp: grows_def intro: exI [of _ "[]"])

lemma grows_trans: "grows a b \<Longrightarrow> grows b c \<Longrightarrow> grows a c"
  by (auto simp: grows_def)

lemma grows_nodes: "grows g g' \<Longrightarrow> set (nodes g) \<subseteq> set (nodes g')"
  by (auto simp: grows_def)

lemma merge_node_Inr:
  assumes "merge_node g l k v oc = Inr (g', ms)"
  shows "v \<noteq> JNull \<and>
    (if match_nodes g l k v = [] then
       (\<exists>ps. eval_props ((k, Inr v) # oc) = Inr ps \<and> \<not> violates g [l] ps \<and>
             g' = g\<lparr>nodes := nodes g @ [\<lparr>labels = [l], props = ps\<rparr>]\<rparr> \<and>
             ms = [length (nodes g)])
     else g' = g \<and> ms = match_nodes g l k v)"
  using assms
  by (auto simp: merge_node_def create_node_def and_then_Inr split: if_splits list.splits)

lemma merge_node_present:
  "v \<noteq> JNull \<Longrightarrow> match_nodes g l k v \<noteq> [] \<Longrightarrow>
   merge_node g l k v oc = Inr (g, match_nodes g l k v)"
  by (auto simp: merge_node_def split: list.splits)

lemma created_matches:
  assumes "eval_props ((k, Inr v) # oc) = Inr ps" and "v \<noteq> JNull"
  shows "node_matches l k v \<lparr>labels = [l], props = ps\<rparr>"
  using eval_props_head [OF assms] by (simp add: node_matches_def cy_eq_refl)

section \<open>Properties of \<^verbatim>\<open>create_nutrients\<close>\<close>

lemma present_noop: "nutrient_present g v \<Longrightarrow> nutrient_row v g = Inr g"
  by (auto simp: nutrient_present_def nutrient_row_def merge_node_present split: sum.splits)

lemma row_present:
  assumes "nutrient_row v g = Inr g'"
  shows "nutrient_present g' v"
proof -
  from assms obtain i ms where i: "cy_prop v ''id'' = Inr i"
    and m: "merge_node g ''Nutrient'' ''id'' i (nutrient_on_create v) = Inr (g', ms)"
    by (auto simp: nutrient_row_def and_then_Inr)
  from merge_node_Inr [OF m] have "i \<noteq> JNull \<and> match_nodes g' ''Nutrient'' ''id'' i \<noteq> []"
    by (auto simp: match_nodes_nonempty created_matches split: if_splits)
  with i show ?thesis by (simp add: nutrient_present_def)
qed

lemma row_grows: "nutrient_row v g = Inr g' \<Longrightarrow> grows g g'"
proof -
  assume "nutrient_row v g = Inr g'"
  then obtain i ms where
    m: "merge_node g ''Nutrient'' ''id'' i (nutrient_on_create v) = Inr (g', ms)"
    by (auto simp: nutrient_row_def and_then_Inr)
  from merge_node_Inr [OF m] show ?thesis
    by (auto simp: grows_def split: if_splits intro: exI [of _ "[]"])
qed

lemma present_mono: "nutrient_present g v \<Longrightarrow> grows g g' \<Longrightarrow> nutrient_present g' v"
  using grows_nodes [of g g']
  by (auto simp: nutrient_present_def match_nodes_nonempty split: sum.splits)

lemma stmt_step:
  "nutrient_stmt b g = Inr g' \<Longrightarrow> (\<forall>v \<in> set b. nutrient_present g' v) \<and> grows g g'"
  unfolding nutrient_stmt_def
  by (rule foldM_establish [of nutrient_row "\<lambda>v g. nutrient_present g v" grows])
     (auto intro: row_present row_grows present_mono grows_refl grows_trans)

lemma stmt_noop: "\<forall>v \<in> set b. nutrient_present g v \<Longrightarrow> nutrient_stmt b g = Inr g"
  unfolding nutrient_stmt_def by (rule foldM_noop) (simp add: present_noop)

lemma nutrient_row_create:
  assumes "nutrient_row v g = Inr g'" and "\<not> nutrient_present g v"
  shows "\<exists>n i. g' = g\<lparr>nodes := nodes g @ [n]\<rparr> \<and> nutrient_node_of v n \<and>
               cy_prop v ''id'' = Inr i \<and> get_prop (props n) ''id'' = i"
proof -
  from assms(1) obtain i ms where i: "cy_prop v ''id'' = Inr i"
    and m: "merge_node g ''Nutrient'' ''id'' i (nutrient_on_create v) = Inr (g', ms)"
    by (auto simp: nutrient_row_def and_then_Inr)
  from merge_node_Inr [OF m] have nn: "i \<noteq> JNull" by simp
  with assms(2) i have "match_nodes g ''Nutrient'' ''id'' i = []"
    by (simp add: nutrient_present_def)
  with merge_node_Inr [OF m] obtain ps where
    ps: "eval_props ((''id'', Inr i) # nutrient_on_create v) = Inr ps"
    and g': "g' = g\<lparr>nodes := nodes g @ [\<lparr>labels = [''Nutrient''], props = ps\<rparr>]\<rparr>"
    by auto
  from eval_props_head [OF ps nn] have "get_prop ps ''id'' = i" by simp
  with ps g' i show ?thesis
    by (auto simp: nutrient_node_of_def)
qed

lemma present_after_create:
  assumes e: "entry_ok e" and e': "entry_ok e'" and ne: "fst e \<noteq> fst e'"
    and i: "cy_prop (snd e) ''id'' = Inr i" and n: "get_prop (props n) ''id'' = i"
  shows "nutrient_present (g\<lparr>nodes := nodes g @ [n]\<rparr>) (snd e') = nutrient_present g (snd e')"
proof -
  from e' obtain i' where i': "py_getitem (snd e') ''id'' = Inr i'" and k': "py_key i' = Inr (fst e')"
    by (auto simp: entry_ok_def)
  from e i have k: "py_key i = Inr (fst e)"
    by (auto simp: entry_ok_def dest: py_getitem_cy_prop)
  from k k' ne have "\<not> cy_eq i i'" by (auto dest: cy_eq_key)
  with n have "\<not> node_matches ''Nutrient'' ''id'' i' n" by (simp add: node_matches_def)
  with py_getitem_cy_prop [OF i'] show ?thesis
    by (auto simp: nutrient_present_def match_nodes_nonempty)
qed

lemma rows_create:
  assumes "foldM nutrient_row (map snd d) g = Inr g'"
    and "distinct (map fst d)" and "\<forall>e \<in> set d. entry_ok e"
  shows "\<exists>new. g' = g\<lparr>nodes := nodes g @ new\<rparr> \<and>
           list_all2 (\<lambda>e n. nutrient_node_of (snd e) n)
             (filter (\<lambda>e. \<not> nutrient_present g (snd e)) d) new"
  using assms
proof (induction d arbitrary: g)
  case Nil
  then show ?case by simp
next
  case (Cons e d)
  from Cons.prems(1) obtain g1 where r: "nutrient_row (snd e) g = Inr g1"
    and f: "foldM nutrient_row (map snd d) g1 = Inr g'"
    by (auto simp: and_then_Inr)
  from Cons.prems have dd: "distinct (map fst d)" and ok: "\<forall>e \<in> set d. entry_ok e" by auto
  from Cons.IH [OF f dd ok] obtain new where g': "g' = g1\<lparr>nodes := nodes g1 @ new\<rparr>"
    and l: "list_all2 (\<lambda>e n. nutrient_node_of (snd e) n)
              (filter (\<lambda>e. \<not> nutrient_present g1 (snd e)) d) new"
    by blast
  show ?case
  proof (cases "nutrient_present g (snd e)")
    case True
    from present_noop [OF True] r have "g1 = g" by simp
    with True g' l show ?thesis by auto
  next
    case False
    from nutrient_row_create [OF r False] obtain n i where
      g1: "g1 = g\<lparr>nodes := nodes g @ [n]\<rparr>" and n: "nutrient_node_of (snd e) n"
      and i: "cy_prop (snd e) ''id'' = Inr i" and p: "get_prop (props n) ''id'' = i"
      by blast
    have "\<forall>e' \<in> set d. nutrient_present g1 (snd e') = nutrient_present g (snd e')"
    proof
      fix e' assume e': "e' \<in> set d"
      with Cons.prems have "entry_ok e" "entry_ok e'" "fst e \<noteq> fst e'" by auto
      from present_after_create [OF this i p] g1
      show "nutrient_present g1 (snd e') = nutrient_present g (snd e')" by simp
    qed
    then have "filter (\<lambda>e. \<not> nutrient_present g1 (snd e)) d =
               filter (\<lambda>e. \<not> nutrient_present g (snd e)) d"
      by (intro filter_cong) auto
    with l False n have "list_all2 (\<lambda>e n. nutrient_node_of (snd e) n)
        (filter (\<lambda>e. \<not> nutrient_present g (snd e)) (e # d)) (n # new)"
      by simp
    moreover from g' g1 have "g' = g\<lparr>nodes := nodes g @ n # new\<rparr>" by simp
    ultimately show ?thesis by blast
  qed
qed

lemma create_nutrients_Inr:
  assumes "create_nutrients foods g = Inr g'"
  shows "\<exists>es. all_entries foods = Inr es \<and>
              foldM nutrient_row (map snd (dict_of es [])) g = Inr g'"
proof -
  from assms obtain d where d: "collect_nutrients foods = Inr d"
    and r: "run_each nutrient_stmt (batches NUTRIENT_BATCH_SIZE (map snd d)) g = Inr g'"
    by (auto simp: create_nutrients_def split: sum.splits)
  from d obtain es where es: "all_entries foods = Inr es" and d': "d = dict_of es []"
    by (auto simp: collect_nutrients_eq and_then_Inr)
  have "0 < NUTRIENT_BATCH_SIZE" by (simp add: NUTRIENT_BATCH_SIZE_def)
  then have c: "concat (batches NUTRIENT_BATCH_SIZE (map snd d)) = map snd d"
    by (rule concat_batches)
  from r have "foldM (\<lambda>b. foldM nutrient_row b) (batches NUTRIENT_BATCH_SIZE (map snd d)) g = Inr g'"
    by (simp add: run_each_Inr nutrient_stmt_def [abs_def])
  then have "foldM nutrient_row (map snd d) g = Inr g'"
    by (simp add: foldM_concat c)
  with es d' show ?thesis by simp
qed



section \<open>Nutrient upsert\<close>

lemma merges_only_refl: "merges_only g g"
  by (auto simp: merges_only_def intro: exI [of _ "[]"])

lemma match_nodes_prefix:
  "match_nodes (g\<lparr>nodes := nodes g @ new\<rparr>) l k v = [] \<Longrightarrow> match_nodes g l k v = []"
  using match_nodes_nonempty [of g l k v] match_nodes_nonempty [of "g\<lparr>nodes := nodes g @ new\<rparr>" l k v]
  by auto

lemma merges_only_trans:
  assumes "merges_only a b" and "merges_only b c"
  shows "merges_only a c"
proof -
  from assms(1) obtain n1 where b: "b = a\<lparr>nodes := nodes a @ n1\<rparr>"
    and p1: "\<forall>n \<in> set n1. labels n = [''Nutrient''] \<and>
               match_nodes a ''Nutrient'' ''id'' (get_prop (props n) ''id'') = []"
    by (auto simp: merges_only_def)
  from assms(2) obtain n2 where c: "c = b\<lparr>nodes := nodes b @ n2\<rparr>"
    and p2: "\<forall>n \<in> set n2. labels n = [''Nutrient''] \<and>
               match_nodes b ''Nutrient'' ''id'' (get_prop (props n) ''id'') = []"
    by (auto simp: merges_only_def)
  from p2 b have "\<forall>n \<in> set n2. labels n = [''Nutrient''] \<and>
               match_nodes a ''Nutrient'' ''id'' (get_prop (props n) ''id'') = []"
    by (auto dest: match_nodes_prefix)
  with p1 have "\<forall>n \<in> set (n1 @ n2). labels n = [''Nutrient''] \<and>
               match_nodes a ''Nutrient'' ''id'' (get_prop (props n) ''id'') = []"
    by auto
  moreover from b c have "c = a\<lparr>nodes := nodes a @ (n1 @ n2)\<rparr>" by simp
  ultimately show ?thesis unfolding merges_only_def by blast
qed

lemma row_merges_only:
  assumes "nutrient_row v g = Inr g'"
  shows "merges_only g g'"
proof (cases "nutrient_present g v")
  case True
  from present_noop [OF True] assms show ?thesis by (simp add: merges_only_refl)
next
  case False
  from nutrient_row_create [OF assms False] obtain n i where
    g': "g' = g\<lparr>nodes := nodes g @ [n]\<rparr>" and n: "nutrient_node_of v n"
    and i: "cy_prop v ''id'' = Inr i" and p: "get_prop (props n) ''id'' = i"
    by blast
  from assms i have "i \<noteq> JNull"
    by (auto simp: nutrient_row_def and_then_Inr dest: merge_node_Inr)
  with False i have "match_nodes g ''Nutrient'' ''id'' i = []"
    by (simp add: nutrient_present_def)
  with g' n p show ?thesis
    by (auto simp: merges_only_def nutrient_node_of_def)
qed

lemma foldM_rel:
  assumes step: "\<And>x s s'. f x s = Inr s' \<Longrightarrow> R s s'"
    and refl: "\<And>s. R s s"
    and trans: "\<And>a b c. R a b \<Longrightarrow> R b c \<Longrightarrow> R a c"
  shows "foldM f xs s = Inr s' \<Longrightarrow> R s s'"
proof (induction xs arbitrary: s)
  case Nil
  then show ?case by (simp add: refl)
next
  case (Cons x xs)
  from Cons.prems obtain s1 where "f x s = Inr s1" and "foldM f xs s1 = Inr s'"
    by (auto simp: and_then_Inr)
  with Cons.IH [of s1] step [of x s s1] show ?case by (blast intro: trans)
qed

lemma run_each_rel:
  assumes step: "\<And>x s s'. f x s = Inr s' \<Longrightarrow> R s s'"
    and refl: "\<And>s. R s s"
    and trans: "\<And>a b c. R a b \<Longrightarrow> R b c \<Longrightarrow> R a c"
  shows "R g (graph_of (run_each f xs g))"
proof (induction xs arbitrary: g)
  case Nil
  show ?case by (simp add: refl)
next
  case (Cons x xs)
  show ?case
  proof (cases "f x g")
    case (Inl e)
    then show ?thesis by (simp add: refl)
  next
    case (Inr g1)
    with Cons [of g1] step [OF Inr] show ?thesis by (auto intro: trans)
  qed
qed

lemma stmt_merges_only: "nutrient_stmt b g = Inr g' \<Longrightarrow> merges_only g g'"
  unfolding nutrient_stmt_def
  by (rule foldM_rel [of nutrient_row merges_only])
     (auto intro: row_merges_only merges_only_refl merges_only_trans)

lemma create_nutrients_merges_only: "merges_only g (graph_of (create_nutrients foods g))"
proof (cases "collect_nutrients foods")
  case (Inl e)
  then show ?thesis by (simp add: create_nutrients_def merges_only_refl)
next
  case (Inr d)
  have "merges_only g (graph_of (run_each nutrient_stmt (batches NUTRIENT_BATCH_SIZE (map snd d)) g))"
    by (rule run_each_rel [of nutrient_stmt merges_only])
       (auto intro: stmt_merges_only merges_only_refl merges_only_trans)
  with Inr show ?thesis by (simp add: create_nutrients_def)
qed

lemma create_nutrients_rerun:
  "create_nutrients foods (graph_of (create_nutrients foods g)) = create_nutrients foods g"
proof (cases "collect_nutrients foods")
  case (Inl e)
  then show ?thesis by (simp add: create_nutrients_def)
next
  case (Inr d)
  have "run_each nutrient_stmt (batches NUTRIENT_BATCH_SIZE (map snd d))
          (graph_of (run_each nutrient_stmt (batches NUTRIENT_BATCH_SIZE (map snd d)) g)) =
        run_each nutrient_stmt (batches NUTRIENT_BATCH_SIZE (map snd d)) g"
    by (rule run_each_idem [of nutrient_stmt "\<lambda>b g. \<forall>v \<in> set b. nutrient_present g v" grows])
       (auto dest: stmt_step intro: present_mono grows_refl grows_trans stmt_noop)
  with Inr show ?thesis by (simp add: create_nutrients_def)
qed

text \<open>
  C5. Whatever the store and the input, \<^verbatim>\<open>create_nutrients\<close> only adds Nutrient nodes
  whose identifier no Nutrient node had, and leaves every node that was there as it was
  (the descriptive fields are written when a node is created and never after); and
  running it again on the store it left, with the same input, has the same outcome and
  changes nothing.
\<close>

theorem nutrient_upsert_idempotent:
  "merges_only g (graph_of (create_nutrients foods g)) \<and>
   create_nutrients foods (graph_of (create_nutrients foods g)) = create_nutrients foods g"
  by (simp add: create_nutrients_merges_only create_nutrients_rerun)

theorem nutrient_upsert_idempotent_witness:
  "graph_of (create_nutrients [apple, pear] empty_graph) = empty_graph\<lparr>nodes := [protein_node]\<rparr> \<and>
   create_nutrients [apple, pear] (empty_graph\<lparr>nodes := [protein_node]\<rparr>) =
     Inr (empty_graph\<lparr>nodes := [protein_node]\<rparr>)"
proof -
  have h: "create_nutrients [apple, pear] empty_graph =
           Inr (empty_graph\<lparr>nodes := [protein_node]\<rparr>)"
    by code_simp
  with nutrient_upsert_idempotent [of empty_graph "[apple, pear]"] show ?thesis by simp
qed

section \<open>Which occurrence of a nutrient is stored\<close>

lemma last_occurrence_in_dict:
  assumes "k \<notin> fst ` set es2"
  shows "(k, v) \<in> set (dict_of (es1 @ (k, v) # es2) [])"
proof -
  from assms have "map_of (rev es2) k = None"
    by (simp add: map_of_eq_None_iff)
  then have "map_of (rev (es1 @ (k, v) # es2)) k = Some v"
    by (simp add: map_add_def)
  then have "map_of (dict_of (es1 @ (k, v) # es2) []) k = Some v"
    by (simp add: map_of_dict_of)
  then show ?thesis by (rule map_of_SomeD)
qed

lemma node_of_id:
  assumes "nutrient_node_of v n" and "cy_prop v ''id'' = Inr i" and "i \<noteq> JNull"
  shows "get_prop (props n) ''id'' = i"
proof -
  from assms(1)
  have "eval_props ((''id'', cy_prop v ''id'') # nutrient_on_create v) = Inr (props n)"
    unfolding nutrient_node_of_def by (rule conjunct2)
  then have "eval_props ((''id'', Inr i) # nutrient_on_create v) = Inr (props n)"
    by (simp only: assms(2))
  from eval_props_head [OF this assms(3)] show ?thesis by (rule conjunct1)
qed

lemma eval_props_keys: "eval_props r = Inr ps \<Longrightarrow> (k, v) \<in> set ps \<Longrightarrow> k \<in> fst ` set r"
proof (induction r arbitrary: ps rule: eval_props.induct)
  case 1
  then show ?case by simp
next
  case (2 k' e r)
  then show ?case by simp
next
  case (3 k' v' r)
  show ?case
  proof (cases "v' = JNull")
    case True
    with 3 show ?thesis by simp
  next
    case False
    with "3.prems" obtain ps' where "eval_props r = Inr ps'" and "ps = (k', v') # ps'"
      by (auto simp: and_then_Inr split: if_splits)
    with "3.IH"(2) [of ps'] "3.prems" False show ?thesis by (auto split: if_splits)
  qed
qed

lemma node_of_null_id:
  assumes "nutrient_node_of v n" and "cy_prop v ''id'' = Inr JNull"
  shows "get_prop (props n) ''id'' = JNull"
proof -
  from assms have e: "eval_props (nutrient_on_create v) = Inr (props n)"
    by (simp add: nutrient_node_of_def)
  have "''id'' \<notin> fst ` set (props n)"
  proof
    assume "''id'' \<in> fst ` set (props n)"
    then obtain b where "(''id'', b) \<in> set (props n)" by auto
    from eval_props_keys [OF e this] show False
      by (simp add: nutrient_on_create_def)
  qed
  then have "map_of (props n) ''id'' = None"
    by (simp only: map_of_eq_None_iff not_False_eq_True)
  then show ?thesis
    by (simp add: get_prop_def)
qed

lemma list_all2_left: "list_all2 P xs ys \<Longrightarrow> x \<in> set xs \<Longrightarrow> \<exists>y \<in> set ys. P x y"
  by (induction rule: list_all2_induct) auto

lemma list_all2_right: "list_all2 P xs ys \<Longrightarrow> y \<in> set ys \<Longrightarrow> \<exists>x \<in> set xs. P x y"
  by (induction rule: list_all2_induct) auto

text \<open>
  C4, as the code has it. The assignment \<^verbatim>\<open>nutrients[nutrient['id']] = nutrient\<close> overwrites:
  when an identifier occurs several times, the dict keeps the object of its last
  occurrence. If \<open>(k, v)\<close> is the last occurrence of the key \<open>k\<close> and no Nutrient node
  has the identifier yet, then a successful run creates a node with the attributes of
  \<open>v\<close>, and every node it creates with that identifier carries the attributes of \<open>v\<close>.
\<close>

theorem last_occurrence_kept:
  assumes run: "create_nutrients foods g = Inr g'"
    and es: "all_entries foods = Inr (es1 @ (k, v) # es2)"
    and last: "k \<notin> fst ` set es2"
    and absent: "\<not> nutrient_present g v"
  shows "\<exists>new i. g' = g\<lparr>nodes := nodes g @ new\<rparr> \<and> cy_prop v ''id'' = Inr i \<and>
           (\<exists>n \<in> set new. nutrient_node_of v n) \<and>
           (\<forall>n \<in> set new. cy_eq (get_prop (props n) ''id'') i \<longrightarrow> nutrient_node_of v n)"
proof -
  let ?es = "es1 @ (k, v) # es2"
  let ?d = "dict_of ?es []"
  from create_nutrients_Inr [OF run] es
  have f: "foldM nutrient_row (map snd ?d) g = Inr g'" by simp
  have d: "distinct (map fst ?d)" by (simp add: distinct_dict_of)
  have ok: "\<forall>e \<in> set ?d. entry_ok e"
    using all_entries_ok [OF es] set_dict_of [of ?es "[]"] by auto
  from rows_create [OF f d ok] obtain new where g': "g' = g\<lparr>nodes := nodes g @ new\<rparr>"
    and l: "list_all2 (\<lambda>e n. nutrient_node_of (snd e) n)
              (filter (\<lambda>e. \<not> nutrient_present g (snd e)) ?d) new"
    by blast
  have kv: "(k, v) \<in> set ?d" by (rule last_occurrence_in_dict [OF last])
  with ok obtain i where i: "py_getitem v ''id'' = Inr i" and ki: "py_key i = Inr k"
    by (auto simp: entry_ok_def)
  from kv absent have "(k, v) \<in> set (filter (\<lambda>e. \<not> nutrient_present g (snd e)) ?d)" by simp
  from list_all2_left [OF l this] have one: "\<exists>n \<in> set new. nutrient_node_of v n" by simp
  have all: "\<forall>n \<in> set new. cy_eq (get_prop (props n) ''id'') i \<longrightarrow> nutrient_node_of v n"
  proof (intro ballI impI)
    fix n assume n: "n \<in> set new" and eq: "cy_eq (get_prop (props n) ''id'') i"
    from list_all2_right [OF l n] obtain e where e: "e \<in> set ?d"
      and ne: "nutrient_node_of (snd e) n"
      by auto
    from e ok obtain j where j: "py_getitem (snd e) ''id'' = Inr j" and kj: "py_key j = Inr (fst e)"
      by (auto simp: entry_ok_def)
    from eq have nn: "get_prop (props n) ''id'' \<noteq> JNull" by (cases "get_prop (props n) ''id''") simp_all
    have pj: "get_prop (props n) ''id'' = j"
    proof (cases "j = JNull")
      case True
      with ne py_getitem_cy_prop [OF j] have "get_prop (props n) ''id'' = JNull"
        by (simp add: node_of_null_id)
      with nn show ?thesis by simp
    next
      case False
      from node_of_id [OF ne py_getitem_cy_prop [OF j] False] show ?thesis .
    qed
    from eq pj have "cy_eq j i" by simp
    from cy_eq_key [OF this kj ki] have "fst e = k" .
    then have "(k, snd e) = e" by auto
    with e have "(k, snd e) \<in> set ?d" by simp
    from eq_key_imp_eq_value [OF d this kv] have "snd e = v" .
    with ne show "nutrient_node_of v n" by simp
  qed
  from g' py_getitem_cy_prop [OF i] one all show ?thesis by blast
qed

theorem last_occurrence_kept_witness:
  "create_nutrients [apple, pear] empty_graph = Inr (empty_graph\<lparr>nodes := [protein_node]\<rparr>) \<and>
   all_entries [apple, pear] = Inr ([(KNum 1003, protein)] @ (KNum 1003, protein_renamed) # []) \<and>
   KNum 1003 \<notin> fst ` set ([] :: (pykey \<times> json) list) \<and>
   \<not> nutrient_present empty_graph protein_renamed \<and>
   nutrient_node_of protein_renamed protein_node"
proof -
  have h1: "create_nutrients [apple, pear] empty_graph =
            Inr (empty_graph\<lparr>nodes := [protein_node]\<rparr>)"
    by code_simp
  have h2: "all_entries [apple, pear] =
            Inr ([(KNum 1003, protein)] @ (KNum 1003, protein_renamed) # [])"
    by code_simp
  have h3: "KNum 1003 \<notin> fst ` set ([] :: (pykey \<times> json) list)" by simp
  have h4: "\<not> nutrient_present empty_graph protein_renamed" by code_simp
  from last_occurrence_kept [OF h1 h2 h3 h4] obtain new where
    g: "empty_graph\<lparr>nodes := [protein_node]\<rparr> = empty_graph\<lparr>nodes := nodes empty_graph @ new\<rparr>"
    and n: "\<exists>n \<in> set new. nutrient_node_of protein_renamed n"
    by blast
  from g have "nodes (empty_graph\<lparr>nodes := [protein_node]\<rparr>) =
               nodes (empty_graph\<lparr>nodes := nodes empty_graph @ new\<rparr>)"
    by (rule arg_cong)
  then have "new = [protein_node]" by (simp add: empty_graph_def)
  with n have "nutrient_node_of protein_renamed protein_node" by simp
  with h1 h2 h3 h4 show ?thesis by blast
qed

text \<open>
  C4 as stated fails: \<^verbatim>\<open>apple\<close> comes first and names nutrient 1003 \<^verbatim>\<open>Protein\<close>, \<^verbatim>\<open>pear\<close>
  comes second and names it \<^verbatim>\<open>Eiweiss\<close>; the node stored is not the node of the first
  occurrence.
\<close>

theorem first_occurrence_counterexample:
  "all_entries [apple, pear] = Inr [(KNum 1003, protein), (KNum 1003, protein_renamed)] \<and>
   create_nutrients [apple, pear] empty_graph = Inr (empty_graph\<lparr>nodes := [protein_node]\<rparr>) \<and>
   \<not> nutrient_node_of protein protein_node"
proof (intro conjI)
  show "all_entries [apple, pear] = Inr [(KNum 1003, protein), (KNum 1003, protein_renamed)]"
    by code_simp
  show "create_nutrients [apple, pear] empty_graph = Inr (empty_graph\<lparr>nodes := [protein_node]\<rparr>)"
    by code_simp
  show "\<not> nutrient_node_of protein protein_node"
    by code_simp
qed

section \<open>Loading the document\<close>

lemma py_len_sized: "sized v \<Longrightarrow> \<exists>n. py_len v = Inr n"
  by (cases v) simp_all

lemma py_len_unsized: "\<not> sized v \<Longrightarrow> py_len v = Inl TypeError"
  by (cases v) simp_all

lemma py_getitem_not_object: "\<forall>kvs. data \<noteq> JObj kvs \<Longrightarrow> py_getitem data k = Inl TypeError"
  by (cases data) simp_all

text \<open>
  C9, as the code has it. For a file that exists, every outcome of \<^verbatim>\<open>load_json_data\<close>:
  text that is not JSON raises \<^verbatim>\<open>JSONDecodeError\<close>; a document that is not an object
  raises \<^verbatim>\<open>TypeError\<close>; an object without the key \<^verbatim>\<open>FoundationFoods\<close> raises \<^verbatim>\<open>KeyError\<close>;
  an object whose key holds null, a boolean or a number raises \<^verbatim>\<open>TypeError\<close>, since the
  progress line takes the length of the value before the document is returned; an
  object whose key holds a list, a string or a dict is returned as parsed.
\<close>

theorem load_json_data_outcomes:
  assumes "fs filepath = Some content"
  shows "(json_load content = None \<longrightarrow>
           load_json_data fs json_load filepath = Inl JSONDecodeError) \<and>
         (\<forall>data. json_load content = Some data \<and> (\<forall>kvs. data \<noteq> JObj kvs) \<longrightarrow>
           load_json_data fs json_load filepath = Inl TypeError) \<and>
         (\<forall>kvs. json_load content = Some (JObj kvs) \<and> map_of kvs ''FoundationFoods'' = None \<longrightarrow>
           load_json_data fs json_load filepath = Inl (KeyError ''FoundationFoods'')) \<and>
         (\<forall>kvs v. json_load content = Some (JObj kvs) \<and>
             map_of kvs ''FoundationFoods'' = Some v \<and> \<not> sized v \<longrightarrow>
           load_json_data fs json_load filepath = Inl TypeError) \<and>
         (\<forall>kvs v. json_load content = Some (JObj kvs) \<and>
             map_of kvs ''FoundationFoods'' = Some v \<and> sized v \<longrightarrow>
           load_json_data fs json_load filepath = Inr (JObj kvs))"
proof (intro conjI allI impI)
  assume "json_load content = None"
  with assms show "load_json_data fs json_load filepath = Inl JSONDecodeError"
    by (simp add: load_json_data_def)
next
  fix data assume "json_load content = Some data \<and> (\<forall>kvs. data \<noteq> JObj kvs)"
  with assms show "load_json_data fs json_load filepath = Inl TypeError"
    by (simp add: load_json_data_def py_getitem_not_object)
next
  fix kvs assume "json_load content = Some (JObj kvs) \<and> map_of kvs ''FoundationFoods'' = None"
  with assms show "load_json_data fs json_load filepath = Inl (KeyError ''FoundationFoods'')"
    by (simp add: load_json_data_def)
next
  fix kvs v
  assume "json_load content = Some (JObj kvs) \<and>
    map_of kvs ''FoundationFoods'' = Some v \<and> \<not> sized v"
  with assms show "load_json_data fs json_load filepath = Inl TypeError"
    by (simp add: load_json_data_def py_len_unsized)
next
  fix kvs v
  assume h: "json_load content = Some (JObj kvs) \<and>
    map_of kvs ''FoundationFoods'' = Some v \<and> sized v"
  then obtain n where "py_len v = Inr n" using py_len_sized by blast
  with assms h show "load_json_data fs json_load filepath = Inr (JObj kvs)"
    by (simp add: load_json_data_def)
qed

theorem load_json_data_outcomes_witness:
  "load_json_data example_files example_json_load ''broken.json'' = Inl JSONDecodeError \<and>
   load_json_data example_files example_json_load ''list.json'' = Inl TypeError \<and>
   load_json_data example_files example_json_load ''other.json'' =
     Inl (KeyError ''FoundationFoods'') \<and>
   load_json_data example_files example_json_load ''null.json'' = Inl TypeError \<and>
   load_json_data example_files example_json_load ''foods.json'' =
     Inr (JObj [(''FoundationFoods'', JArr [apple, pear])])"
proof -
  have f1: "example_files ''broken.json'' = Some ''{''"
    and f2: "example_files ''list.json'' = Some ''[{}]''"
    and f3: "example_files ''other.json'' = Some ''{}''"
    and f4: "example_files ''null.json'' = Some ''(null under the key)''"
    and f5: "example_files ''foods.json'' = Some ''(the document)''"
    by (simp_all add: example_files_def)
  have j1: "example_json_load ''{'' = None"
    and j2: "example_json_load ''[{}]'' = Some (JArr [JObj []])"
    and j3: "example_json_load ''{}'' = Some (JObj [])"
    and j4: "example_json_load ''(null under the key)'' = Some (JObj [(''FoundationFoods'', JNull)])"
    and j5: "example_json_load ''(the document)'' =
             Some (JObj [(''FoundationFoods'', JArr [apple, pear])])"
    by (simp_all add: example_json_load_def)
  from load_json_data_outcomes [where fs = example_files and filepath = "''broken.json''"
      and content = "''{''" and json_load = example_json_load, OF f1] j1
  have "load_json_data example_files example_json_load ''broken.json'' = Inl JSONDecodeError"
    by simp
  moreover from load_json_data_outcomes [where fs = example_files and filepath = "''list.json''"
      and content = "''[{}]''" and json_load = example_json_load, OF f2] j2
  have "load_json_data example_files example_json_load ''list.json'' = Inl TypeError"
    by simp
  moreover from load_json_data_outcomes [where fs = example_files and filepath = "''other.json''"
      and content = "''{}''" and json_load = example_json_load, OF f3] j3
  have "load_json_data example_files example_json_load ''other.json'' =
        Inl (KeyError ''FoundationFoods'')"
    by simp
  moreover from load_json_data_outcomes [where fs = example_files and filepath = "''null.json''"
      and content = "''(null under the key)''" and json_load = example_json_load, OF f4] j4
  have "load_json_data example_files example_json_load ''null.json'' = Inl TypeError"
    by simp
  moreover from load_json_data_outcomes [where fs = example_files and filepath = "''foods.json''"
      and content = "''(the document)''" and json_load = example_json_load, OF f5] j5
  have "load_json_data example_files example_json_load ''foods.json'' =
        Inr (JObj [(''FoundationFoods'', JArr [apple, pear])])"
    by simp
  ultimately show ?thesis by blast
qed

text \<open>
  C9 as stated fails on a well-formed document that contains the key: when the key holds
  null, \<^verbatim>\<open>len(data['FoundationFoods'])\<close> raises \<^verbatim>\<open>TypeError\<close> and the parsed document is
  not returned.
\<close>

theorem null_foods_counterexample:
  "example_files ''null.json'' = Some ''(null under the key)'' \<and>
   example_json_load ''(null under the key)'' = Some (JObj [(''FoundationFoods'', JNull)]) \<and>
   map_of [(''FoundationFoods'', JNull)] ''FoundationFoods'' = Some JNull \<and>
   load_json_data example_files example_json_load ''null.json'' = Inl TypeError"
proof (intro conjI)
  show "example_files ''null.json'' = Some ''(null under the key)''"
    by (simp add: example_files_def)
  show "example_json_load ''(null under the key)'' = Some (JObj [(''FoundationFoods'', JNull)])"
    by (simp add: example_json_load_def)
  show "map_of [(''FoundationFoods'', JNull)] ''FoundationFoods'' = Some JNull" by simp
  show "load_json_data example_files example_json_load ''null.json'' = Inl TypeError"
    by code_simp
qed

section \<open>Foods without nutrients\<close>

lemma food_nutrients_absent:
  "map_of kvs ''foodNutrients'' = None \<Longrightarrow> food_nutrients (JObj kvs) = Inr []"
  by (simp add: food_nutrients_def)

lemma collect_food_absent:
  "map_of kvs ''foodNutrients'' = None \<Longrightarrow> collect_food (JObj kvs) d = Inr d"
  by (simp add: collect_food_def food_nutrients_absent)

lemma measurement_stmt_empty: "measurement_stmt i2f s2f fdcId [] g = Inr g"
  unfolding measurement_stmt_def by (rule foldM_noop) simp

lemma food_measurements_absent:
  assumes "map_of kvs ''foodNutrients'' = None" and "map_of kvs ''fdcId'' = Some v"
  shows "food_measurements i2f s2f (JObj kvs) g = Inr g"
  using assms
  by (simp add: food_measurements_def food_nutrients_absent measurement_stmt_empty)

lemma collect_nutrients_skip:
  assumes "map_of kvs ''foodNutrients'' = None"
  shows "collect_nutrients (pre @ JObj kvs # post) = collect_nutrients (pre @ post)"
proof -
  have "foldM collect_food (JObj kvs # post) = foldM collect_food post"
    by (rule ext) (simp add: collect_food_absent [OF assms])
  then show ?thesis
    by (simp only: collect_nutrients_def foldM_append)
qed

lemma run_each_skip:
  assumes "\<And>s. f x s = Inr s"
  shows "run_each f (pre @ x # post) g = run_each f (pre @ post) g"
proof -
  have "run_each f (x # post) = run_each f post"
    by (rule ext) (simp add: assms)
  then show ?thesis
    by (simp only: run_each_append)
qed

text \<open>
  C10. A food record without the key \<^verbatim>\<open>foodNutrients\<close> (and with its \<^verbatim>\<open>fdcId\<close>) raises
  nothing: the scan of \<^verbatim>\<open>create_nutrients\<close> leaves the dict as it is, its statement for
  \<^verbatim>\<open>create_nutrient_relationships\<close> creates no relationship, and both methods go on
  with the other foods exactly as if the record were not in the list.
\<close>

theorem missing_foodNutrients_skipped:
  assumes "map_of kvs ''foodNutrients'' = None" and "map_of kvs ''fdcId'' = Some v"
  shows "collect_food (JObj kvs) d = Inr d \<and>
         create_nutrients (pre @ JObj kvs # post) g = create_nutrients (pre @ post) g \<and>
         food_measurements i2f s2f (JObj kvs) g = Inr g \<and>
         create_nutrient_relationships i2f s2f (pre @ JObj kvs # post) g =
           create_nutrient_relationships i2f s2f (pre @ post) g"
proof -
  have "create_nutrient_relationships i2f s2f (pre @ JObj kvs # post) g =
        create_nutrient_relationships i2f s2f (pre @ post) g"
    unfolding create_nutrient_relationships_def
    by (rule run_each_skip) (rule food_measurements_absent [OF assms])
  moreover have "create_nutrients (pre @ JObj kvs # post) g = create_nutrients (pre @ post) g"
    by (simp add: create_nutrients_def collect_nutrients_skip [OF assms(1)])
  ultimately show ?thesis
    by (simp add: collect_food_absent [OF assms(1)] food_measurements_absent [OF assms])
qed

theorem missing_foodNutrients_skipped_witness:
  "map_of plum_fields ''foodNutrients'' = None \<and>
   map_of plum_fields ''fdcId'' = Some (JInt 3) \<and>
   create_nutrients [apple, JObj plum_fields, pear] empty_graph =
     Inr (empty_graph\<lparr>nodes := [protein_node]\<rparr>) \<and>
   create_nutrient_relationships of_int (\<lambda>s. None) [apple, JObj plum_fields, pear] empty_graph =
     Inr empty_graph"
proof -
  have h1: "map_of plum_fields ''foodNutrients'' = None"
    and h2: "map_of plum_fields ''fdcId'' = Some (JInt 3)"
    by (simp_all add: plum_fields_def)
  have c1: "create_nutrients ([apple] @ [pear]) empty_graph =
            Inr (empty_graph\<lparr>nodes := [protein_node]\<rparr>)"
    by code_simp
  have c2: "create_nutrient_relationships of_int (\<lambda>s. None) ([apple] @ [pear]) empty_graph =
            Inr empty_graph"
    by code_simp
  from missing_foodNutrients_skipped [OF h1 h2, where pre = "[apple]" and post = "[pear]"
      and g = empty_graph and ?i2f = of_int and ?s2f = "\<lambda>s. None"]
    c1 c2 h1 h2
  show ?thesis by simp
qed

section \<open>Referential integrity of measurements\<close>

lemma foldM_inv:
  assumes "I s" and "foldM f xs s = Inr s'"
    and "\<And>x s s'. x \<in> set xs \<Longrightarrow> I s \<Longrightarrow> f x s = Inr s' \<Longrightarrow> I s'"
  shows "I s'"
  using assms
proof (induction xs arbitrary: s)
  case Nil
  then show ?case by simp
next
  case (Cons x xs)
  from Cons.prems(2) obtain s1 where a: "f x s = Inr s1" and b: "foldM f xs s1 = Inr s'"
    by (auto simp: and_then_Inr)
  from Cons.prems(3) [of x s s1] Cons.prems(1) a have i: "I s1" by simp
  show ?case
  proof (rule Cons.IH [OF i b])
    fix y t t' assume "y \<in> set xs" "I t" "f y t = Inr t'"
    then show "I t'" using Cons.prems(3) [of y t t'] by simp
  qed
qed

lemma run_each_inv:
  assumes "I g"
    and "\<And>x s s'. x \<in> set xs \<Longrightarrow> I s \<Longrightarrow> f x s = Inr s' \<Longrightarrow> I s'"
  shows "I (graph_of (run_each f xs g))"
  using assms
proof (induction xs arbitrary: g)
  case Nil
  then show ?case by simp
next
  case (Cons x xs)
  show ?case
  proof (cases "f x g")
    case (Inl e)
    with Cons.prems show ?thesis by simp
  next
    case (Inr g1)
    from Cons.prems(2) [of x g g1] Cons.prems(1) Inr have i: "I g1" by simp
    have "I (graph_of (run_each f xs g1))"
    proof (rule Cons.IH [OF i])
      fix y t t' assume "y \<in> set xs" "I t" "f y t = Inr t'"
      then show "I t'" using Cons.prems(2) [of y t t'] by simp
    qed
    with Inr show ?thesis by simp
  qed
qed

lemma ref_ok_start: "count_rels g ''HAS_NUTRIENT'' = 0 \<Longrightarrow> ref_ok g"
  by (auto simp: count_rels_def ref_ok_def filter_empty_conv)

lemma ref_ok_add_nodes: "ref_ok g \<Longrightarrow> ref_ok (g\<lparr>nodes := nodes g @ new\<rparr>)"
  by (auto simp: ref_ok_def nth_append)

lemma ref_ok_add_rel:
  assumes "ref_ok g"
    and "t = ''HAS_NUTRIENT'' \<Longrightarrow>
           a < length (nodes g) \<and> b < length (nodes g) \<and>
           ''Food'' \<in> set (labels (nodes g ! a)) \<and> ''Nutrient'' \<in> set (labels (nodes g ! b))"
  shows "ref_ok (create_rel g t a b ps)"
  using assms by (auto simp: ref_ok_def create_rel_def)

lemma ref_ok_schema:
  "ref_ok (g\<lparr>constraints := c\<rparr>) = ref_ok g" "ref_ok (g\<lparr>indexes := i\<rparr>) = ref_ok g"
  by (simp_all add: ref_ok_def)

lemma create_constraint_ref_ok: "ref_ok g \<Longrightarrow> create_constraint c g = Inr g' \<Longrightarrow> ref_ok g'"
  by (auto simp: create_constraint_def ref_ok_schema split: if_splits)

lemma create_index_ref_ok: "ref_ok g \<Longrightarrow> create_index c g = Inr g' \<Longrightarrow> ref_ok g'"
  by (auto simp: create_index_def ref_ok_schema split: if_splits)

lemma constraints_ref_ok: "ref_ok g \<Longrightarrow> ref_ok (graph_of (create_constraints_and_indexes g))"
  unfolding create_constraints_and_indexes_def
  by (erule run_each_inv [where I = ref_ok])
     (auto dest: create_constraint_ref_ok create_index_ref_ok)

lemma merges_only_ref_ok: "merges_only g g' \<Longrightarrow> ref_ok g \<Longrightarrow> ref_ok g'"
  by (auto simp: merges_only_def ref_ok_add_nodes)

lemma nutrients_ref_ok: "ref_ok g \<Longrightarrow> ref_ok (graph_of (create_nutrients foods g))"
  using create_nutrients_merges_only [of g foods] by (rule merges_only_ref_ok)

lemma merge_node_ref_ok:
  assumes "merge_node g l k v oc = Inr (g', ms)" and "ref_ok g"
  shows "ref_ok g'"
  using merge_node_Inr [OF assms(1)] assms(2)
  by (auto simp: ref_ok_add_nodes split: if_splits)

lemma create_node_ref_ok: "create_node g ls ps = Inr (g', i) \<Longrightarrow> ref_ok g \<Longrightarrow> ref_ok g'"
  by (auto simp: create_node_def ref_ok_add_nodes split: if_splits)

lemma create_food_ref_ok:
  assumes "ref_ok g" and "create_food food fc g = Inr g'"
  shows "ref_ok g'"
proof -
  from assms(2) obtain ps g1 f where "create_node g [''Food''] ps = Inr (g1, f)"
    and g': "g' = create_rel g1 ''BELONGS_TO'' f fc []"
    by (auto simp: create_food_def and_then_Inr)
  from create_node_ref_ok [OF this(1) assms(1)] have "ref_ok g1" .
  then have "ref_ok (create_rel g1 ''BELONGS_TO'' f fc [])"
    by (rule ref_ok_add_rel) simp
  with g' show ?thesis by simp
qed

lemma food_row_ref_ok:
  assumes "ref_ok g" and "food_row food g = Inr g'"
  shows "ref_ok g'"
proof -
  from assms(2) obtain v g1 fcs where
    m: "merge_node g ''FoodCategory'' ''id'' v (category_on_create food) = Inr (g1, fcs)"
    and f: "foldM (create_food food) fcs g1 = Inr g'"
    by (auto simp: food_row_def and_then_Inr)
  from merge_node_ref_ok [OF m assms(1)] have "ref_ok g1" .
  from this f show ?thesis
    by (rule foldM_inv [where I = ref_ok]) (auto intro: create_food_ref_ok)
qed

lemma food_stmt_ref_ok: "ref_ok g \<Longrightarrow> food_stmt b g = Inr g' \<Longrightarrow> ref_ok g'"
  unfolding food_stmt_def
  by (erule (1) foldM_inv [where I = ref_ok]) (auto intro: food_row_ref_ok)

lemma foods_ref_ok: "ref_ok g \<Longrightarrow> ref_ok (graph_of (create_foods_and_categories foods g))"
  unfolding create_foods_and_categories_def
  by (erule run_each_inv [where I = ref_ok]) (auto intro: food_stmt_ref_ok)

lemma match_nodes_sound:
  "i \<in> set (match_nodes g l k v) \<Longrightarrow>
   i < length (nodes g) \<and> l \<in> set (labels (nodes g ! i)) \<and>
   cy_eq (get_prop (props (nodes g ! i)) k) v"
  by (auto simp: match_nodes_def node_matches_def)

lemma links_only_refl: "links_only g g"
  by (auto simp: links_only_def intro: exI [of _ "[]"])

lemma links_only_nodes: "links_only g s \<Longrightarrow> nodes s = nodes g"
  by (auto simp: links_only_def)

lemma links_only_add:
  assumes "links_only g s"
    and "a < length (nodes g)" and "''Food'' \<in> set (labels (nodes g ! a))"
    and "b < length (nodes g)" and "''Nutrient'' \<in> set (labels (nodes g ! b))"
  shows "links_only g (create_rel s ''HAS_NUTRIENT'' a b ps)"
proof -
  from assms(1) obtain new where s: "s = g\<lparr>rels := rels g @ new\<rparr>"
    and n: "\<forall>r \<in> set new. rtype r = ''HAS_NUTRIENT'' \<and>
           src r < length (nodes g) \<and> dst r < length (nodes g) \<and>
           ''Food'' \<in> set (labels (nodes g ! src r)) \<and>
           ''Nutrient'' \<in> set (labels (nodes g ! dst r))"
    by (auto simp: links_only_def)
  let ?r = "\<lparr>rtype = ''HAS_NUTRIENT'', src = a, dst = b, rprops = ps\<rparr>"
  from s have "create_rel s ''HAS_NUTRIENT'' a b ps = g\<lparr>rels := rels g @ (new @ [?r])\<rparr>"
    by (simp add: create_rel_def)
  moreover from n assms(2-5) have "\<forall>r \<in> set (new @ [?r]). rtype r = ''HAS_NUTRIENT'' \<and>
           src r < length (nodes g) \<and> dst r < length (nodes g) \<and>
           ''Food'' \<in> set (labels (nodes g ! src r)) \<and>
           ''Nutrient'' \<in> set (labels (nodes g ! dst r))"
    by auto
  ultimately show ?thesis unfolding links_only_def by blast
qed

lemma create_measurement_links:
  assumes "links_only g s" and "create_measurement i2f s2f f nd n s = Inr s'"
    and "f \<in> set (match_nodes g ''Food'' k v)" and "n \<in> set (match_nodes g ''Nutrient'' k' v')"
  shows "links_only g s'"
proof -
  from assms(2) obtain ps where "s' = create_rel s ''HAS_NUTRIENT'' f n ps"
    by (auto simp: create_measurement_def and_then_Inr)
  with links_only_add [OF assms(1), of f n ps]
    match_nodes_sound [OF assms(3)] match_nodes_sound [OF assms(4)]
  show ?thesis by simp
qed

lemma match_nodes_cong: "nodes s = nodes g \<Longrightarrow> match_nodes s l k v = match_nodes g l k v"
  by (simp add: match_nodes_def)

lemma measurement_row_links:
  assumes "links_only g s" and "measurement_row i2f s2f f nd s = Inr s'"
    and "f \<in> set (match_nodes g ''Food'' k v)"
  shows "links_only g s'"
proof -
  from assms(2) obtain w where
    r: "foldM (create_measurement i2f s2f f nd) (match_nodes s ''Nutrient'' ''id'' w) s = Inr s'"
    by (auto simp: measurement_row_def and_then_Inr)
  have m: "match_nodes s ''Nutrient'' ''id'' w = match_nodes g ''Nutrient'' ''id'' w"
    by (rule match_nodes_cong) (rule links_only_nodes [OF assms(1)])
  from assms(1) r show ?thesis
  proof (rule foldM_inv [where I = "links_only g"])
    fix n t t'
    assume "n \<in> set (match_nodes s ''Nutrient'' ''id'' w)" and "links_only g t"
      and "create_measurement i2f s2f f nd n t = Inr t'"
    with m assms(3) show "links_only g t'"
      by (auto intro: create_measurement_links)
  qed
qed

lemma measurement_stmt_links:
  assumes "measurement_stmt i2f s2f v nds g = Inr g'"
  shows "links_only g g'"
  using links_only_refl assms unfolding measurement_stmt_def
proof (rule foldM_inv [where I = "links_only g"])
  fix f t t'
  assume f: "f \<in> set (match_nodes g ''Food'' ''fdcId'' v)" and t: "links_only g t"
    and r: "foldM (measurement_row i2f s2f f) nds t = Inr t'"
  from t r show "links_only g t'"
    by (rule foldM_inv [where I = "links_only g"]) (auto intro: measurement_row_links f)
qed

lemma food_measurements_links:
  "food_measurements i2f s2f food g = Inr g' \<Longrightarrow> links_only g g'"
  by (auto simp: food_measurements_def and_then_Inr intro: measurement_stmt_links)

lemma links_only_trans:
  assumes "links_only a b" and "links_only b c"
  shows "links_only a c"
proof -
  from assms(1) obtain n1 where b: "b = a\<lparr>rels := rels a @ n1\<rparr>"
    and p1: "\<forall>r \<in> set n1. rtype r = ''HAS_NUTRIENT'' \<and>
           src r < length (nodes a) \<and> dst r < length (nodes a) \<and>
           ''Food'' \<in> set (labels (nodes a ! src r)) \<and>
           ''Nutrient'' \<in> set (labels (nodes a ! dst r))"
    by (auto simp: links_only_def)
  from assms(2) obtain n2 where c: "c = b\<lparr>rels := rels b @ n2\<rparr>"
    and p2: "\<forall>r \<in> set n2. rtype r = ''HAS_NUTRIENT'' \<and>
           src r < length (nodes b) \<and> dst r < length (nodes b) \<and>
           ''Food'' \<in> set (labels (nodes b ! src r)) \<and>
           ''Nutrient'' \<in> set (labels (nodes b ! dst r))"
    by (auto simp: links_only_def)
  from b p1 p2 have "\<forall>r \<in> set (n1 @ n2). rtype r = ''HAS_NUTRIENT'' \<and>
           src r < length (nodes a) \<and> dst r < length (nodes a) \<and>
           ''Food'' \<in> set (labels (nodes a ! src r)) \<and>
           ''Nutrient'' \<in> set (labels (nodes a ! dst r))"
    by auto
  moreover from b c have "c = a\<lparr>rels := rels a @ (n1 @ n2)\<rparr>" by simp
  ultimately show ?thesis unfolding links_only_def by blast
qed

lemma relationships_links:
  "links_only g (graph_of (create_nutrient_relationships i2f s2f foods g))"
  unfolding create_nutrient_relationships_def
  by (rule run_each_rel [of "food_measurements i2f s2f" links_only])
     (auto intro: food_measurements_links links_only_refl links_only_trans)

lemma links_only_ref_ok:
  assumes "links_only g g'" and "ref_ok g"
  shows "ref_ok g'"
  using assms by (auto simp: links_only_def ref_ok_def)

lemma relationships_ref_ok:
  "ref_ok g \<Longrightarrow> ref_ok (graph_of (create_nutrient_relationships i2f s2f foods g))"
  using relationships_links [of g i2f s2f foods] by (rule links_only_ref_ok)

lemma reachable_ref_ok: "reachable g \<Longrightarrow> ref_ok g"
  by (induction rule: reachable.induct)
     (simp_all add: ref_ok_start constraints_ref_ok nutrients_ref_ok foods_ref_ok
        relationships_ref_ok)

text \<open>
  C6. In every store the loader can reach, a \<^verbatim>\<open>HAS_NUTRIENT\<close> relationship joins a Food
  node and a Nutrient node that are in the store. \<^verbatim>\<open>create_nutrient_relationships\<close> binds
  both ends with \<^verbatim>\<open>MATCH\<close> before it creates a relationship: on any store, whatever it
  adds joins a Food node and a Nutrient node that were there before the call.
\<close>

theorem referential_integrity:
  "(reachable g \<longrightarrow> ref_ok g) \<and>
   links_only h (graph_of (create_nutrient_relationships i2f s2f foods h))"
  by (simp add: reachable_ref_ok relationships_links)

theorem referential_integrity_witness:
  "graph_of (create_nutrient_relationships of_int (\<lambda>s. None) [apple, pear]
     (graph_of (create_foods_and_categories [apple, pear]
       (graph_of (create_nutrients [apple, pear]
         (graph_of (create_constraints_and_indexes empty_graph))))))) = imported_graph \<and>
   rtype (rels imported_graph ! 3) = ''HAS_NUTRIENT'' \<and>
   src (rels imported_graph ! 3) < length (nodes imported_graph) \<and>
   dst (rels imported_graph ! 3) < length (nodes imported_graph) \<and>
   ''Food'' \<in> set (labels (nodes imported_graph ! src (rels imported_graph ! 3))) \<and>
   ''Nutrient'' \<in> set (labels (nodes imported_graph ! dst (rels imported_graph ! 3)))"
proof -
  let ?g0 = "graph_of (create_constraints_and_indexes empty_graph)"
  let ?g1 = "graph_of (create_nutrients [apple, pear] ?g0)"
  let ?g2 = "graph_of (create_foods_and_categories [apple, pear] ?g1)"
  let ?g3 = "graph_of (create_nutrient_relationships of_int (\<lambda>s. None) [apple, pear] ?g2)"
  have e: "?g3 = imported_graph" by code_simp
  have "count_rels empty_graph ''HAS_NUTRIENT'' = 0" by code_simp
  then have "reachable empty_graph" by (rule reachable.start)
  then have "reachable ?g0" by (rule reachable.constraints)
  then have "reachable ?g1" by (rule reachable.nutrients)
  then have "reachable ?g2" by (rule reachable.foods)
  then have "reachable ?g3" by (rule reachable.measurements)
  with e have r: "reachable imported_graph" by simp
  from referential_integrity [of imported_graph empty_graph of_int "\<lambda>s. None" "[]"] r
  have ok: "ref_ok imported_graph" by simp
  have m: "rels imported_graph ! 3 \<in> set (rels imported_graph)"
    and t: "rtype (rels imported_graph ! 3) = ''HAS_NUTRIENT''"
    by (simp_all add: imported_graph_def)
  from ok m t have
    "src (rels imported_graph ! 3) < length (nodes imported_graph) \<and>
     dst (rels imported_graph ! 3) < length (nodes imported_graph) \<and>
     ''Food'' \<in> set (labels (nodes imported_graph ! src (rels imported_graph ! 3))) \<and>
     ''Nutrient'' \<in> set (labels (nodes imported_graph ! dst (rels imported_graph ! 3)))"
    unfolding ref_ok_def by blast
  with e t show ?thesis by blast
qed

section \<open>Measurements\<close>

lemma py_get_obj: "py_get (JObj kvs) k JNull = Inr (get_prop kvs k)"
  by (simp add: get_prop_def split: option.splits)

lemma py_get_Inr_obj: "py_get d k JNull = Inr x \<Longrightarrow> x = entry_field d k"
  by (cases d) (auto simp: entry_field_def get_prop_def split: option.splits)

lemma py_getitem_Inr: "py_getitem v k = Inr x \<Longrightarrow> \<exists>kvs. v = JObj kvs \<and> map_of kvs k = Some x"
  by (cases v) (auto split: option.splits)

lemma derivation_get:
  assumes "and_then (py_get (JObj kvs) ''foodNutrientDerivation'' (JObj [])) (\<lambda>d. py_get d k JNull) = Inr x"
  shows "x = derivation_field (JObj kvs) k"
proof (cases "map_of kvs ''foodNutrientDerivation''")
  case None
  with assms show ?thesis by (simp add: derivation_field_def)
next
  case (Some d)
  with assms have "py_get d k JNull = Inr x" by simp
  from py_get_Inr_obj [OF this] Some show ?thesis by (simp add: derivation_field_def)
qed

lemma nutrient_data_Inr:
  assumes "nutrient_data fn = Inr nd"
  shows "nd = JObj
       [(''nutrient_id'', nutrient_id_of fn),
        (''amount'', entry_field fn ''amount''),
        (''dataPoints'', entry_field fn ''dataPoints''),
        (''derivationCode'', derivation_field fn ''code''),
        (''derivationDescription'', derivation_field fn ''description''),
        (''min'', entry_field fn ''min''),
        (''max'', entry_field fn ''max''),
        (''median'', entry_field fn ''median'')]"
proof -
  from assms obtain n i where n: "py_getitem fn ''nutrient'' = Inr n" and i: "py_getitem n ''id'' = Inr i"
    by (auto simp: nutrient_data_def and_then_Inr)
  from py_getitem_Inr [OF n] obtain kvs where fn: "fn = JObj kvs"
    and kn: "map_of kvs ''nutrient'' = Some n" by blast
  from py_getitem_Inr [OF i] obtain nk where nn: "n = JObj nk" and ki: "map_of nk ''id'' = Some i"
    by blast
  from fn kn nn ki have id: "nutrient_id_of fn = i"
    by (simp add: nutrient_id_of_def entry_field_def get_prop_def)
  from assms fn n i obtain dc dd where
    dc: "and_then (py_get (JObj kvs) ''foodNutrientDerivation'' (JObj []))
           (\<lambda>d. py_get d ''code'' JNull) = Inr dc"
    and dd: "and_then (py_get (JObj kvs) ''foodNutrientDerivation'' (JObj []))
           (\<lambda>d. py_get d ''description'' JNull) = Inr dd"
    and nd: "nd = JObj
       [(''nutrient_id'', i),
        (''amount'', get_prop kvs ''amount''),
        (''dataPoints'', get_prop kvs ''dataPoints''),
        (''derivationCode'', dc),
        (''derivationDescription'', dd),
        (''min'', get_prop kvs ''min''),
        (''max'', get_prop kvs ''max''),
        (''median'', get_prop kvs ''median'')]"
    unfolding nutrient_data_def
    by (auto simp add: and_then_Inr py_get_obj simp del: py_get.simps)
  from derivation_get [OF dc] derivation_get [OF dd] nd id fn show ?thesis
    by (simp add: entry_field_def)
qed

lemma eval_props_total:
  assumes "\<forall>(k, r) \<in> set items. \<exists>v. r = Inr v \<and> plain v"
  shows "\<exists>ps. eval_props items = Inr ps"
  using assms
proof (induction items rule: eval_props.induct)
  case 1
  show ?case by simp
next
  case (2 k e r)
  then show ?case by simp
next
  case (3 k v r)
  from "3.prems" have p: "plain v" and rest: "\<forall>(k, r) \<in> set r. \<exists>v. r = Inr v \<and> plain v"
    by auto
  show ?case
  proof (cases "v = JNull")
    case True
    with "3.IH"(1) rest show ?thesis by simp
  next
    case False
    with p have s: "storable v" by (simp add: plain_def)
    from "3.IH"(2) [OF False s rest] obtain ps where "eval_props r = Inr ps" by blast
    with False s show ?thesis by simp
  qed
qed

lemma eval_props_get:
  assumes "eval_props items = Inr ps" and "distinct (map fst items)" and "(k, Inr v) \<in> set items"
  shows "get_prop ps k = v"
  using assms
proof (induction items arbitrary: ps rule: eval_props.induct)
  case 1
  then show ?case by simp
next
  case (2 k' e r)
  then show ?case by simp
next
  case (3 k' v' r)
  from "3.prems"(2) have d: "distinct (map fst r)" and nk: "k' \<notin> fst ` set r" by auto
  show ?case
  proof (cases "v' = JNull")
    case True
    with "3.prems"(1) have e: "eval_props r = Inr ps" by simp
    show ?thesis
    proof (cases "(k, Inr v) \<in> set r")
      case True
      from "3.IH"(1) [OF \<open>v' = JNull\<close> e d True] show ?thesis .
    next
      case False
      with "3.prems"(3) have kv: "k = k'" "v = v'" by auto
      have "map_of ps k' = None"
      proof (cases "map_of ps k'")
        case (Some x)
        then have "(k', x) \<in> set ps" by (rule map_of_SomeD)
        from eval_props_keys [OF e this] nk show ?thesis by simp
      qed simp
      with kv \<open>v' = JNull\<close> show ?thesis by (simp add: get_prop_def)
    qed
  next
    case False
    with "3.prems"(1) obtain ps' where s: "storable v'" and e: "eval_props r = Inr ps'"
      and ps: "ps = (k', v') # ps'"
      by (auto simp: and_then_Inr split: if_splits)
    show ?thesis
    proof (cases "(k, Inr v) \<in> set r")
      case True
      with nk have "k \<noteq> k'" by force
      with "3.IH"(2) [OF False s e d True] ps show ?thesis by (simp add: get_prop_def)
    next
      case False
      with "3.prems"(3) have "k = k'" "v = v'" by auto
      with ps show ?thesis by (simp add: get_prop_def)
    qed
  qed
qed

lemma toFloat_convertible: "convertible v \<Longrightarrow> \<exists>w. toFloat i2f s2f v = Inr w \<and> plain w"
  by (cases v) (auto simp: plain_def split: option.splits)

lemma measurement_props_nd:
  assumes "nutrient_data fn = Inr nd"
  shows "measurement_props i2f s2f nd =
     [(''amount'', toFloat i2f s2f (entry_field fn ''amount'')),
      (''dataPoints'', Inr (entry_field fn ''dataPoints'')),
      (''derivationCode'', Inr (derivation_field fn ''code'')),
      (''derivationDescription'', Inr (derivation_field fn ''description'')),
      (''min'', toFloat i2f s2f (entry_field fn ''min'')),
      (''max'', toFloat i2f s2f (entry_field fn ''max'')),
      (''median'', toFloat i2f s2f (entry_field fn ''median''))]"
  by (simp add: nutrient_data_Inr [OF assms] measurement_props_def get_prop_def)

lemma nutrient_id_nd:
  assumes "nutrient_data fn = Inr nd"
  shows "cy_prop nd ''nutrient_id'' = Inr (nutrient_id_of fn)"
  by (simp add: nutrient_data_Inr [OF assms] get_prop_def)

lemma length_one: "length xs = Suc 0 \<Longrightarrow> \<exists>x. xs = [x]"
  by (cases xs) auto

lemma measurement_created:
  assumes ready: "entry_ready g fn" and nd: "nutrient_data fn = Inr nd"
    and same: "nodes s = nodes g"
  shows "\<exists>r. measurement_row i2f s2f f nd s = Inr (s\<lparr>rels := rels s @ [r]\<rparr>) \<and>
             measurement_of i2f s2f g f fn r"
proof -
  from ready obtain n where n: "match_nodes g ''Nutrient'' ''id'' (nutrient_id_of fn) = [n]"
    by (auto simp: entry_ready_def dest: length_one)
  from ready obtain a where a: "toFloat i2f s2f (entry_field fn ''amount'') = Inr a" and pa: "plain a"
    using toFloat_convertible [of "entry_field fn ''amount''" i2f s2f]
    by (auto simp: entry_ready_def)
  from ready obtain mi where mi: "toFloat i2f s2f (entry_field fn ''min'') = Inr mi" and pmi: "plain mi"
    using toFloat_convertible [of "entry_field fn ''min''" i2f s2f]
    by (auto simp: entry_ready_def)
  from ready obtain ma where ma: "toFloat i2f s2f (entry_field fn ''max'') = Inr ma" and pma: "plain ma"
    using toFloat_convertible [of "entry_field fn ''max''" i2f s2f]
    by (auto simp: entry_ready_def)
  from ready obtain me where me: "toFloat i2f s2f (entry_field fn ''median'') = Inr me" and pme: "plain me"
    using toFloat_convertible [of "entry_field fn ''median''" i2f s2f]
    by (auto simp: entry_ready_def)
  from ready have pl: "plain (entry_field fn ''dataPoints'')" "plain (derivation_field fn ''code'')"
    "plain (derivation_field fn ''description'')"
    by (simp_all add: entry_ready_def)
  let ?items = "[(''amount'', Inr a),
      (''dataPoints'', Inr (entry_field fn ''dataPoints'')),
      (''derivationCode'', Inr (derivation_field fn ''code'')),
      (''derivationDescription'', Inr (derivation_field fn ''description'')),
      (''min'', Inr mi), (''max'', Inr ma), (''median'', Inr me)]"
  have items: "measurement_props i2f s2f nd = ?items"
    by (simp add: measurement_props_nd [OF nd] a mi ma me)
  have "\<forall>(k, r) \<in> set ?items. \<exists>v. r = Inr v \<and> plain v"
    using pa pmi pma pme pl by simp
  from eval_props_total [OF this] obtain ps where ps: "eval_props ?items = Inr ps" by blast
  have d: "distinct (map fst ?items)" by simp
  let ?r = "\<lparr>rtype = ''HAS_NUTRIENT'', src = f, dst = n, rprops = ps\<rparr>"
  have g1: "get_prop ps ''amount'' = a" by (rule eval_props_get [OF ps d]) simp
  have g2: "get_prop ps ''min'' = mi" by (rule eval_props_get [OF ps d]) simp
  have g3: "get_prop ps ''max'' = ma" by (rule eval_props_get [OF ps d]) simp
  have g4: "get_prop ps ''median'' = me" by (rule eval_props_get [OF ps d]) simp
  have g5: "get_prop ps ''dataPoints'' = entry_field fn ''dataPoints''"
    by (rule eval_props_get [OF ps d]) simp
  have g6: "get_prop ps ''derivationCode'' = derivation_field fn ''code''"
    by (rule eval_props_get [OF ps d]) simp
  have g7: "get_prop ps ''derivationDescription'' = derivation_field fn ''description''"
    by (rule eval_props_get [OF ps d]) simp
  have m: "measurement_of i2f s2f g f fn ?r"
    unfolding measurement_of_def by (simp add: n a mi ma me g1 g2 g3 g4 g5 g6 g7)
  have mn: "match_nodes s ''Nutrient'' ''id'' (nutrient_id_of fn) = [n]"
    using n match_nodes_cong [OF same] by simp
  have "create_measurement i2f s2f f nd n s = Inr (create_rel s ''HAS_NUTRIENT'' f n ps)"
    unfolding create_measurement_def items ps by simp
  then have "foldM (create_measurement i2f s2f f nd) [n] s = Inr (s\<lparr>rels := rels s @ [?r]\<rparr>)"
    by (simp add: create_rel_def)
  then have "measurement_row i2f s2f f nd s = Inr (s\<lparr>rels := rels s @ [?r]\<rparr>)"
    unfolding measurement_row_def nutrient_id_nd [OF nd] and_then.simps mn .
  with m show ?thesis by blast
qed

lemma measurements_created:
  assumes "list_all2 (\<lambda>fn nd. nutrient_data fn = Inr nd) fns nds"
    and "list_all (entry_ready g) fns" and "nodes s = nodes g"
  shows "\<exists>new. foldM (measurement_row i2f s2f f) nds s = Inr (s\<lparr>rels := rels s @ new\<rparr>) \<and>
               list_all2 (measurement_of i2f s2f g f) fns new"
  using assms
proof (induction fns nds arbitrary: s rule: list_all2_induct)
  case Nil
  have "s\<lparr>rels := rels s @ []\<rparr> = s" by simp
  then show ?case by (auto intro!: exI [of _ "[]"])
next
  case (Cons fn fns nd nds)
  from Cons.prems have r: "entry_ready g fn" and rs: "list_all (entry_ready g) fns" by simp_all
  from measurement_created [OF r Cons.hyps(1) Cons.prems(2)] obtain x where
    x: "measurement_row i2f s2f f nd s = Inr (s\<lparr>rels := rels s @ [x]\<rparr>)"
    and mx: "measurement_of i2f s2f g f fn x" by blast
  let ?s1 = "s\<lparr>rels := rels s @ [x]\<rparr>"
  from Cons.prems(2) have "nodes ?s1 = nodes g" by simp
  from Cons.IH [OF rs this] obtain new where
    n: "foldM (measurement_row i2f s2f f) nds ?s1 = Inr (?s1\<lparr>rels := rels ?s1 @ new\<rparr>)"
    and mn: "list_all2 (measurement_of i2f s2f g f) fns new" by blast
  have "?s1\<lparr>rels := rels ?s1 @ new\<rparr> = s\<lparr>rels := rels s @ (x # new)\<rparr>" by simp
  with x n have "foldM (measurement_row i2f s2f f) (nd # nds) s = Inr (s\<lparr>rels := rels s @ (x # new)\<rparr>)"
    by simp
  moreover from mx mn have "list_all2 (measurement_of i2f s2f g f) (fn # fns) (x # new)" by simp
  ultimately show ?case by blast
qed

lemma mapM_Inr: "mapM f xs = Inr ys \<Longrightarrow> list_all2 (\<lambda>x y. f x = Inr y) xs ys"
  by (induction xs arbitrary: ys) (auto simp: and_then_Inr)

lemma mapM_total:
  assumes "\<forall>x \<in> set xs. \<exists>y. f x = Inr y"
  shows "\<exists>ys. mapM f xs = Inr ys"
  using assms
proof (induction xs)
  case Nil
  show ?case by simp
next
  case (Cons x xs)
  then obtain y ys where "f x = Inr y" "mapM f xs = Inr ys" by auto
  then show ?case by simp
qed

lemma food_measurements_created:
  assumes ready: "food_ready g food" and same: "nodes s = nodes g"
  shows "\<exists>new. food_measurements i2f s2f food s = Inr (s\<lparr>rels := rels s @ new\<rparr>) \<and>
               list_all2 (measurement_of i2f s2f g (food_node g food)) (entries food) new"
proof -
  from ready obtain fns where fns: "food_nutrients food = Inr fns"
    and rs: "list_all (entry_ready g) fns"
    by (auto simp: food_ready_def split: sum.splits)
  from ready obtain f where f: "match_nodes g ''Food'' ''fdcId'' (entry_field food ''fdcId'') = [f]"
    by (auto simp: food_ready_def dest: length_one)
  from fns obtain kvs where food: "food = JObj kvs"
    by (cases food) (simp_all add: food_nutrients_def)
  have "map_of kvs ''fdcId'' \<noteq> None"
  proof
    assume "map_of kvs ''fdcId'' = None"
    with food have "entry_field food ''fdcId'' = JNull" by (simp add: entry_field_def get_prop_def)
    with f show False by (simp add: match_nodes_def node_matches_def)
  qed
  with food have fdc: "py_getitem food ''fdcId'' = Inr (entry_field food ''fdcId'')"
    by (auto simp: entry_field_def get_prop_def)
  have "\<forall>fn \<in> set fns. \<exists>nd. nutrient_data fn = Inr nd"
  proof
    fix fn assume "fn \<in> set fns"
    with rs have "entry_ready g fn" by (simp add: list_all_iff)
    then show "\<exists>nd. nutrient_data fn = Inr nd"
      by (cases "nutrient_data fn") (simp_all add: entry_ready_def)
  qed
  from mapM_total [OF this] obtain nds where nds: "mapM nutrient_data fns = Inr nds" by blast
  from measurements_created [OF mapM_Inr [OF nds] rs same, of i2f s2f f] obtain new where
    n: "foldM (measurement_row i2f s2f f) nds s = Inr (s\<lparr>rels := rels s @ new\<rparr>)"
    and m: "list_all2 (measurement_of i2f s2f g f) fns new" by blast
  have "match_nodes s ''Food'' ''fdcId'' (entry_field food ''fdcId'') = [f]"
    using f match_nodes_cong [OF same] by simp
  with n have "food_measurements i2f s2f food s = Inr (s\<lparr>rels := rels s @ new\<rparr>)"
    by (simp add: food_measurements_def fns nds fdc measurement_stmt_def)
  moreover from m f fns have
    "list_all2 (measurement_of i2f s2f g (food_node g food)) (entries food) new"
    by (simp add: food_node_def entries_def)
  ultimately show ?thesis by blast
qed

lemma relationships_created:
  assumes "\<forall>food \<in> set foods. food_ready g food" and "nodes s = nodes g"
  shows "\<exists>news. run_each (food_measurements i2f s2f) foods s =
                  Inr (s\<lparr>rels := rels s @ concat news\<rparr>) \<and>
           list_all2 (\<lambda>food new.
               list_all2 (measurement_of i2f s2f g (food_node g food)) (entries food) new)
             foods news"
  using assms
proof (induction foods arbitrary: s)
  case Nil
  have "s\<lparr>rels := rels s @ concat []\<rparr> = s" by simp
  then show ?case by (auto intro!: exI [of _ "[]"])
next
  case (Cons food foods)
  from Cons.prems have r: "food_ready g food" and rs: "\<forall>food \<in> set foods. food_ready g food"
    by simp_all
  from food_measurements_created [OF r Cons.prems(2), of i2f s2f] obtain new where
    x: "food_measurements i2f s2f food s = Inr (s\<lparr>rels := rels s @ new\<rparr>)"
    and mx: "list_all2 (measurement_of i2f s2f g (food_node g food)) (entries food) new"
    by blast
  let ?s1 = "s\<lparr>rels := rels s @ new\<rparr>"
  from Cons.prems(2) have "nodes ?s1 = nodes g" by simp
  from Cons.IH [OF rs this] obtain news where
    n: "run_each (food_measurements i2f s2f) foods ?s1 =
        Inr (?s1\<lparr>rels := rels ?s1 @ concat news\<rparr>)"
    and mn: "list_all2 (\<lambda>food new.
               list_all2 (measurement_of i2f s2f g (food_node g food)) (entries food) new)
             foods news" by blast
  have "?s1\<lparr>rels := rels ?s1 @ concat news\<rparr> = s\<lparr>rels := rels s @ concat (new # news)\<rparr>"
    by simp
  with x n have "run_each (food_measurements i2f s2f) (food # foods) s =
                 Inr (s\<lparr>rels := rels s @ concat (new # news)\<rparr>)"
    by simp
  moreover from mx mn have "list_all2 (\<lambda>food new.
               list_all2 (measurement_of i2f s2f g (food_node g food)) (entries food) new)
             (food # foods) (new # news)" by simp
  ultimately show ?case by blast
qed

lemma absent_amount_null:
  assumes "map_of kvs ''amount'' = None" and "measurement_of i2f s2f g f (JObj kvs) r"
  shows "get_prop (rprops r) ''amount'' = JNull"
proof -
  from assms(1) have "entry_field (JObj kvs) ''amount'' = JNull"
    by (simp add: entry_field_def get_prop_def)
  with assms(2) show ?thesis by (simp add: measurement_of_def)
qed

lemma relationships_nodes:
  "create_nutrient_relationships i2f s2f foods g = Inr s \<Longrightarrow> nodes s = nodes g"
  using relationships_links [of g i2f s2f foods] by (auto simp: links_only_def)

lemma relationships_rels:
  "\<exists>more. rels (graph_of (create_nutrient_relationships i2f s2f foods g)) = rels g @ more"
  using relationships_links [of g i2f s2f foods] by (auto simp: links_only_def)

text \<open>
  C2, as the code has it. Let the records before a food record have been processed
  without error, let the record's \<^verbatim>\<open>fdcId\<close> match exactly one Food node, and let every
  entry of its \<^verbatim>\<open>foodNutrients\<close> be ready: the Python part builds its dict, exactly one
  Nutrient node has its identifier, and its fields are values the statement accepts.
  Then the statement of the record succeeds and adds exactly one relationship per entry,
  in the order of the entries, from the record's Food node to the entry's Nutrient
  node, and these relationships are in the store the method leaves behind: \<^verbatim>\<open>amount\<close>,
  \<^verbatim>\<open>min\<close>, \<^verbatim>\<open>max\<close> and \<^verbatim>\<open>median\<close> are converted with \<^verbatim>\<open>toFloat\<close>, \<^verbatim>\<open>dataPoints\<close> and the
  derivation fields are stored as given, and an absent field is null; in particular the
  measurement of an entry without \<^verbatim>\<open>amount\<close> has a null amount.
\<close>

theorem one_measurement_per_entry:
  assumes "create_nutrient_relationships i2f s2f pre g = Inr s" and "food_ready g food"
  shows "(\<exists>new more.
            food_measurements i2f s2f food s = Inr (s\<lparr>rels := rels s @ new\<rparr>) \<and>
            list_all2 (measurement_of i2f s2f g (food_node g food)) (entries food) new \<and>
            create_nutrient_relationships i2f s2f (pre @ food # post) g =
              create_nutrient_relationships i2f s2f post (s\<lparr>rels := rels s @ new\<rparr>) \<and>
            rels (graph_of (create_nutrient_relationships i2f s2f (pre @ food # post) g)) =
              rels s @ new @ more) \<and>
         (\<forall>kvs f r. map_of kvs ''amount'' = None \<and> measurement_of i2f s2f g f (JObj kvs) r \<longrightarrow>
            get_prop (rprops r) ''amount'' = JNull)"
proof
  from relationships_nodes [OF assms(1)] have same: "nodes s = nodes g" .
  from food_measurements_created [OF assms(2) same, of i2f s2f] obtain new where
    x: "food_measurements i2f s2f food s = Inr (s\<lparr>rels := rels s @ new\<rparr>)"
    and m: "list_all2 (measurement_of i2f s2f g (food_node g food)) (entries food) new"
    by blast
  let ?s1 = "s\<lparr>rels := rels s @ new\<rparr>"
  from assms(1) x have e: "create_nutrient_relationships i2f s2f (pre @ food # post) g =
      create_nutrient_relationships i2f s2f post ?s1"
    by (simp add: create_nutrient_relationships_def run_each_append)
  from relationships_rels [of i2f s2f post ?s1] obtain more where
    "rels (graph_of (create_nutrient_relationships i2f s2f post ?s1)) = rels ?s1 @ more"
    by blast
  with e have "rels (graph_of (create_nutrient_relationships i2f s2f (pre @ food # post) g)) =
      rels s @ new @ more" by simp
  with x m e show "\<exists>new more.
            food_measurements i2f s2f food s = Inr (s\<lparr>rels := rels s @ new\<rparr>) \<and>
            list_all2 (measurement_of i2f s2f g (food_node g food)) (entries food) new \<and>
            create_nutrient_relationships i2f s2f (pre @ food # post) g =
              create_nutrient_relationships i2f s2f post (s\<lparr>rels := rels s @ new\<rparr>) \<and>
            rels (graph_of (create_nutrient_relationships i2f s2f (pre @ food # post) g)) =
              rels s @ new @ more" by blast
  show "\<forall>kvs f r. map_of kvs ''amount'' = None \<and> measurement_of i2f s2f g f (JObj kvs) r \<longrightarrow>
            get_prop (rprops r) ''amount'' = JNull"
    by (auto intro: absent_amount_null)
qed

theorem one_measurement_per_entry_witness:
  "create_nutrient_relationships of_int (\<lambda>s. None) [apple] foods_graph =
     Inr (imported_graph\<lparr>rels := take 3 (rels imported_graph)\<rparr>) \<and>
   food_ready foods_graph pear \<and>
   create_nutrient_relationships of_int (\<lambda>s. None) [apple, pear] foods_graph =
     Inr imported_graph \<and>
   (\<exists>new. rels imported_graph = take 3 (rels imported_graph) @ new \<and>
      list_all2 (measurement_of of_int (\<lambda>s. None) foods_graph (food_node foods_graph pear))
        (entries pear) new)"
proof -
  let ?s = "imported_graph\<lparr>rels := take 3 (rels imported_graph)\<rparr>"
  have a: "create_nutrient_relationships of_int (\<lambda>s. None) [apple] foods_graph = Inr ?s"
    by code_simp
  have p: "food_ready foods_graph pear" by code_simp
  have r: "create_nutrient_relationships of_int (\<lambda>s. None) [apple, pear] foods_graph =
           Inr imported_graph"
    by code_simp
  have t: "rels ?s = take 3 (rels imported_graph)" by simp
  from one_measurement_per_entry [OF a p, of "[]"] obtain new more where
    m: "list_all2 (measurement_of of_int (\<lambda>s. None) foods_graph (food_node foods_graph pear))
          (entries pear) new"
    and e: "create_nutrient_relationships of_int (\<lambda>s. None) ([apple] @ [pear]) foods_graph =
            create_nutrient_relationships of_int (\<lambda>s. None) [] (?s\<lparr>rels := rels ?s @ new\<rparr>)"
    by blast
  from e r have "imported_graph = ?s\<lparr>rels := rels ?s @ new\<rparr>"
    by (simp add: create_nutrient_relationships_def)
  then have "rels imported_graph = rels (?s\<lparr>rels := rels ?s @ new\<rparr>)" by simp
  then have "rels imported_graph = take 3 (rels imported_graph) @ new" by simp
  with m a p r show ?thesis by blast
qed

text \<open>
  C2 as stated fails in each of these ways. (1) \<^verbatim>\<open>dataPoints\<close> is set without \<^verbatim>\<open>toFloat\<close>:
  the entry of \<^verbatim>\<open>apple\<close> has the integers \<^verbatim>\<open>amount = 3\<close> and \<^verbatim>\<open>dataPoints = 4\<close>, and the
  measurement stores the float 3 and the integer 4. (2) Without Food nodes the method
  returns and creates nothing. (3) An entry whose nutrient has no node gets no
  relationship, while the other entry of the record gets its own. (4) With two Nutrient
  nodes of the identifier, or two Food nodes of the \<^verbatim>\<open>fdcId\<close>, the one entry of \<^verbatim>\<open>apple\<close>
  gets two relationships. (5) A boolean \<^verbatim>\<open>amount\<close> or a map as \<^verbatim>\<open>dataPoints\<close> in one entry
  makes the statement of the record fail, so the other entry of the record gets no
  relationship either. (6) An entry without \<^verbatim>\<open>nutrient\<close> raises \<^verbatim>\<open>KeyError\<close> before any
  statement runs, and the records after it, here \<^verbatim>\<open>pear\<close>, are not processed.
\<close>

theorem measurement_counterexample:
  "create_nutrient_relationships of_int (\<lambda>s. None) [apple, pear] foods_graph =
     Inr imported_graph \<and>
   entry_field (hd (entries apple)) ''dataPoints'' = JInt 4 \<and>
   get_prop (rprops (rels imported_graph ! 2)) ''dataPoints'' = JInt 4 \<and>
   get_prop (rprops (rels imported_graph ! 2)) ''amount'' = JFloat 3 \<and>
   create_nutrient_relationships of_int (\<lambda>s. None) [apple, pear] nutrients_graph =
     Inr nutrients_graph \<and>
   create_nutrient_relationships of_int (\<lambda>s. None)
       [apple_with (JObj [(''nutrient'', JObj [(''id'', JInt 7)]), (''amount'', JInt 5)])]
       foods_graph =
     Inr (foods_graph\<lparr>rels := rels foods_graph @
       [\<lparr>rtype = ''HAS_NUTRIENT'', src = 2, dst = 0, rprops = [(''amount'', JFloat 3)]\<rparr>]\<rparr>) \<and>
   count_rels (graph_of (create_nutrient_relationships of_int (\<lambda>s. None) [apple]
       (foods_graph\<lparr>nodes := nodes foods_graph @ [protein_node], constraints := []\<rparr>)))
     ''HAS_NUTRIENT'' = 2 \<and>
   count_rels (graph_of (create_nutrient_relationships of_int (\<lambda>s. None) [apple]
       (foods_graph\<lparr>nodes := nodes foods_graph @ [nodes foods_graph ! 2], constraints := []\<rparr>)))
     ''HAS_NUTRIENT'' = 2 \<and>
   create_nutrient_relationships of_int (\<lambda>s. None)
       [apple_with (JObj [(''nutrient'', protein), (''amount'', JBool True)])] foods_graph =
     Inl (CypherTypeError, foods_graph) \<and>
   create_nutrient_relationships of_int (\<lambda>s. None)
       [apple_with (JObj [(''nutrient'', protein), (''dataPoints'', JObj [])])] foods_graph =
     Inl (CypherTypeError, foods_graph) \<and>
   create_nutrient_relationships of_int (\<lambda>s. None) [apple_with (JObj []), pear] foods_graph =
     Inl (KeyError ''nutrient'', foods_graph)"
proof (intro conjI)
  show "create_nutrient_relationships of_int (\<lambda>s. None) [apple, pear] foods_graph =
     Inr imported_graph"
    by code_simp
  show "entry_field (hd (entries apple)) ''dataPoints'' = JInt 4" by code_simp
  show "get_prop (rprops (rels imported_graph ! 2)) ''dataPoints'' = JInt 4" by code_simp
  show "get_prop (rprops (rels imported_graph ! 2)) ''amount'' = JFloat 3" by code_simp
  show "create_nutrient_relationships of_int (\<lambda>s. None) [apple, pear] nutrients_graph =
     Inr nutrients_graph" by code_simp
  show "create_nutrient_relationships of_int (\<lambda>s. None)
       [apple_with (JObj [(''nutrient'', JObj [(''id'', JInt 7)]), (''amount'', JInt 5)])]
       foods_graph =
     Inr (foods_graph\<lparr>rels := rels foods_graph @
       [\<lparr>rtype = ''HAS_NUTRIENT'', src = 2, dst = 0, rprops = [(''amount'', JFloat 3)]\<rparr>]\<rparr>)"
    by code_simp
  show "count_rels (graph_of (create_nutrient_relationships of_int (\<lambda>s. None) [apple]
       (foods_graph\<lparr>nodes := nodes foods_graph @ [protein_node], constraints := []\<rparr>)))
     ''HAS_NUTRIENT'' = 2" by code_simp
  show "count_rels (graph_of (create_nutrient_relationships of_int (\<lambda>s. None) [apple]
       (foods_graph\<lparr>nodes := nodes foods_graph @ [nodes foods_graph ! 2], constraints := []\<rparr>)))
     ''HAS_NUTRIENT'' = 2" by code_simp
  show "create_nutrient_relationships of_int (\<lambda>s. None)
       [apple_with (JObj [(''nutrient'', protein), (''amount'', JBool True)])] foods_graph =
     Inl (CypherTypeError, foods_graph)" by code_simp
  show "create_nutrient_relationships of_int (\<lambda>s. None)
       [apple_with (JObj [(''nutrient'', protein), (''dataPoints'', JObj [])])] foods_graph =
     Inl (CypherTypeError, foods_graph)" by code_simp
  show "create_nutrient_relationships of_int (\<lambda>s. None) [apple_with (JObj []), pear] foods_graph =
     Inl (KeyError ''nutrient'', foods_graph)" by code_simp
qed

section \<open>Uniqueness of categories\<close>

lemma cy_eq_sym: "cy_eq a b \<Longrightarrow> cy_eq b a"
proof (induction a arbitrary: b)
  case (JArr xs)
  from JArr.prems obtain ys where b: "b = JArr ys" and l: "list_all2 cy_eq xs ys"
    by (cases b) auto
  have "list_all2 cy_eq ys xs"
    unfolding list_all2_conv_all_nth
  proof (intro conjI allI impI)
    from l show "length ys = length xs" by (simp add: list_all2_lengthD)
  next
    fix i assume "i < length ys"
    with l have "i < length xs" and "cy_eq (xs ! i) (ys ! i)"
      by (simp_all add: list_all2_conv_all_nth)
    with JArr.IH [of "xs ! i" "ys ! i"] show "cy_eq (ys ! i) (xs ! i)" by simp
  qed
  with b show ?case by simp
qed (case_tac b; simp)+

lemma cy_eq_euclid: "cy_eq a b \<Longrightarrow> cy_eq c b \<Longrightarrow> cy_eq a c"
proof (induction a arbitrary: b c)
  case (JArr xs)
  from JArr.prems(1) obtain ys where b: "b = JArr ys" and l: "list_all2 cy_eq xs ys"
    by (cases b) auto
  from JArr.prems(2) b obtain zs where c: "c = JArr zs" and m: "list_all2 cy_eq zs ys"
    by (cases c) auto
  have "list_all2 cy_eq xs zs"
    unfolding list_all2_conv_all_nth
  proof (intro conjI allI impI)
    from l m show "length xs = length zs" by (simp add: list_all2_lengthD)
  next
    fix i assume i: "i < length xs"
    with l m have "cy_eq (xs ! i) (ys ! i)" and "cy_eq (zs ! i) (ys ! i)"
      by (simp_all add: list_all2_conv_all_nth)
    with JArr.IH [of "xs ! i" "ys ! i" "zs ! i"] i show "cy_eq (xs ! i) (zs ! i)" by simp
  qed
  with c show ?case by simp
qed (case_tac b; case_tac c; simp)+

lemma in_match_nodes:
  "j \<in> set (match_nodes g l k v) \<longleftrightarrow>
   j < length (nodes g) \<and> l \<in> set (labels (nodes g ! j)) \<and>
   cy_eq (get_prop (props (nodes g ! j)) k) v"
  by (auto simp: match_nodes_def node_matches_def)

lemma unique_on_iff:
  "unique_on g (l, k) \<longleftrightarrow>
   (\<forall>i < length (nodes g). \<forall>j < length (nodes g).
      l \<in> set (labels (nodes g ! i)) \<and> l \<in> set (labels (nodes g ! j)) \<and>
      cy_eq (get_prop (props (nodes g ! j)) k) (get_prop (props (nodes g ! i)) k) \<longrightarrow> j = i)"
  unfolding unique_on_def list_all_iff
  by (auto simp: in_match_nodes)

lemma distinct_match_nodes: "distinct (match_nodes g l k v)"
  by (simp add: match_nodes_def)

lemma single_match:
  assumes u: "unique_on g (l, k)" and m: "match_nodes g l k v = m # ms"
  shows "ms = []"
proof (rule ccontr)
  assume "ms \<noteq> []"
  then obtain j where j: "j \<in> set ms" by (cases ms) auto
  from distinct_match_nodes [of g l k v] m j have ne: "j \<noteq> m" by auto
  from m have "m \<in> set (match_nodes g l k v)" by simp
  then have pm: "m < length (nodes g)" "l \<in> set (labels (nodes g ! m))"
    "cy_eq (get_prop (props (nodes g ! m)) k) v"
    by (simp_all add: in_match_nodes)
  from m j have "j \<in> set (match_nodes g l k v)" by simp
  then have pj: "j < length (nodes g)" "l \<in> set (labels (nodes g ! j))"
    "cy_eq (get_prop (props (nodes g ! j)) k) v"
    by (simp_all add: in_match_nodes)
  from cy_eq_euclid [OF pj(3) pm(3)]
  have "cy_eq (get_prop (props (nodes g ! j)) k) (get_prop (props (nodes g ! m)) k)" .
  with u pm pj have "j = m" unfolding unique_on_iff by blast
  with ne show False by simp
qed

lemma unique_on_add:
  assumes u: "unique_on g (l, k)"
    and fresh: "l \<in> set ls \<Longrightarrow> match_nodes g l k (get_prop ps k) = []"
  shows "unique_on (g\<lparr>nodes := nodes g @ [\<lparr>labels = ls, props = ps\<rparr>]\<rparr>) (l, k)"
  unfolding unique_on_iff
proof (intro allI impI)
  let ?n = "\<lparr>labels = ls, props = ps\<rparr>"
  let ?g = "g\<lparr>nodes := nodes g @ [?n]\<rparr>"
  fix i j
  assume i: "i < length (nodes ?g)" and j: "j < length (nodes ?g)"
    and h: "l \<in> set (labels (nodes ?g ! i)) \<and> l \<in> set (labels (nodes ?g ! j)) \<and>
            cy_eq (get_prop (props (nodes ?g ! j)) k) (get_prop (props (nodes ?g ! i)) k)"
  have no: "\<And>x. x < length (nodes g) \<Longrightarrow> l \<in> set (labels (nodes g ! x)) \<Longrightarrow> l \<in> set ls \<Longrightarrow>
              \<not> cy_eq (get_prop (props (nodes g ! x)) k) (get_prop ps k)"
  proof
    fix x assume "x < length (nodes g)" "l \<in> set (labels (nodes g ! x))" "l \<in> set ls"
      "cy_eq (get_prop (props (nodes g ! x)) k) (get_prop ps k)"
    then have "x \<in> set (match_nodes g l k (get_prop ps k))" by (simp add: in_match_nodes)
    with fresh [OF \<open>l \<in> set ls\<close>] show False by simp
  qed
  show "j = i"
  proof (cases "i < length (nodes g)")
    case True
    note il = this
    show ?thesis
    proof (cases "j < length (nodes g)")
      case True
      with il h u show ?thesis unfolding unique_on_iff by (simp add: nth_append)
    next
      case False
      with j have jn: "j = length (nodes g)" by simp
      with il h have "l \<in> set ls" "l \<in> set (labels (nodes g ! i))"
        "cy_eq (get_prop ps k) (get_prop (props (nodes g ! i)) k)"
        by (simp_all add: nth_append)
      with no [OF il] cy_eq_sym show ?thesis by blast
    qed
  next
    case False
    with i have inn: "i = length (nodes g)" by simp
    show ?thesis
    proof (cases "j < length (nodes g)")
      case True
      with inn h have "l \<in> set ls" "l \<in> set (labels (nodes g ! j))"
        "cy_eq (get_prop (props (nodes g ! j)) k) (get_prop ps k)"
        by (simp_all add: nth_append)
      with no [OF True] show ?thesis by blast
    next
      case False
      with j inn show ?thesis by simp
    qed
  qed
qed

lemma unique_on_rels: "unique_on (g\<lparr>rels := r\<rparr>) c = unique_on g c"
  by (simp add: unique_on_def match_nodes_def)

section \<open>Category links\<close>

lemma merge_category:
  assumes m: "merge_node s ''FoodCategory'' ''id'' v oc = Inr (s1, fcs)"
    and u: "unique_on s (''FoodCategory'', ''id'')"
  shows "\<exists>cs c. s1 = s\<lparr>nodes := nodes s @ cs\<rparr> \<and> fcs = [c] \<and> c < length (nodes s1) \<and>
           node_matches ''FoodCategory'' ''id'' v (nodes s1 ! c) \<and>
           unique_on s1 (''FoodCategory'', ''id'') \<and>
           (\<forall>n \<in> set cs. labels n = [''FoodCategory''])"
proof (cases "match_nodes s ''FoodCategory'' ''id'' v = []")
  case True
  with merge_node_Inr [OF m] obtain ps where nn: "v \<noteq> JNull"
    and ps: "eval_props ((''id'', Inr v) # oc) = Inr ps"
    and s1: "s1 = s\<lparr>nodes := nodes s @ [\<lparr>labels = [''FoodCategory''], props = ps\<rparr>]\<rparr>"
    and fcs: "fcs = [length (nodes s)]"
    by auto
  from eval_props_head [OF ps nn] have gp: "get_prop ps ''id'' = v" by simp
  from created_matches [OF ps nn]
  have "node_matches ''FoodCategory'' ''id'' v \<lparr>labels = [''FoodCategory''], props = ps\<rparr>" .
  moreover from u True gp
  have "unique_on (s\<lparr>nodes := nodes s @ [\<lparr>labels = [''FoodCategory''], props = ps\<rparr>]\<rparr>)
          (''FoodCategory'', ''id'')"
    by (intro unique_on_add) simp_all
  ultimately have "s1 = s\<lparr>nodes := nodes s @ [\<lparr>labels = [''FoodCategory''], props = ps\<rparr>]\<rparr> \<and>
      fcs = [length (nodes s)] \<and> length (nodes s) < length (nodes s1) \<and>
      node_matches ''FoodCategory'' ''id'' v (nodes s1 ! length (nodes s)) \<and>
      unique_on s1 (''FoodCategory'', ''id'') \<and>
      (\<forall>n \<in> set [\<lparr>labels = [''FoodCategory''], props = ps\<rparr>]. labels n = [''FoodCategory''])"
    using s1 fcs by simp
  then show ?thesis by blast
next
  case False
  with merge_node_Inr [OF m] have s1: "s1 = s" and fcs: "fcs = match_nodes s ''FoodCategory'' ''id'' v"
    by auto
  from False obtain c ms where cm: "match_nodes s ''FoodCategory'' ''id'' v = c # ms"
    by (cases "match_nodes s ''FoodCategory'' ''id'' v") auto
  from single_match [OF u cm] cm have one: "match_nodes s ''FoodCategory'' ''id'' v = [c]" by simp
  then have "c \<in> set (match_nodes s ''FoodCategory'' ''id'' v)" by simp
  then have "c < length (nodes s)" "node_matches ''FoodCategory'' ''id'' v (nodes s ! c)"
    by (simp_all add: in_match_nodes node_matches_def)
  with s1 fcs one u have "s1 = s\<lparr>nodes := nodes s @ []\<rparr> \<and> fcs = [c] \<and> c < length (nodes s1) \<and>
           node_matches ''FoodCategory'' ''id'' v (nodes s1 ! c) \<and>
           unique_on s1 (''FoodCategory'', ''id'') \<and>
           (\<forall>n \<in> set []. labels n = [''FoodCategory''])"
    by simp
  then show ?thesis by blast
qed

lemma create_food_Inr:
  assumes "create_food food c s = Inr s'"
  shows "\<exists>ps. eval_props (food_props food) = Inr ps \<and>
           s' = s\<lparr>nodes := nodes s @ [\<lparr>labels = [''Food''], props = ps\<rparr>],
                  rels := rels s @ [\<lparr>rtype = ''BELONGS_TO'', src = length (nodes s), dst = c,
                                     rprops = []\<rparr>]\<rparr>"
  using assms
  by (auto simp: create_food_def create_node_def create_rel_def and_then_Inr split: if_splits)

lemma food_row_links:
  assumes row: "food_row food s = Inr s'" and u: "unique_on s (''FoodCategory'', ''id'')"
  shows "\<exists>nn r. s' = s\<lparr>nodes := nodes s @ nn, rels := rels s @ [r]\<rparr> \<and>
           belongs_to_of (nodes s') food r \<and> length (nodes s) \<le> src r \<and>
           length (filter (\<lambda>n. ''Food'' \<in> set (labels n)) nn) = 1 \<and>
           unique_on s' (''FoodCategory'', ''id'')"
proof -
  from row obtain v s1 fcs where v: "category_id food = Inr v"
    and m: "merge_node s ''FoodCategory'' ''id'' v (category_on_create food) = Inr (s1, fcs)"
    and f: "foldM (create_food food) fcs s1 = Inr s'"
    by (auto simp: food_row_def category_id_def and_then_Inr)
  from merge_category [OF m u] obtain cs c where s1: "s1 = s\<lparr>nodes := nodes s @ cs\<rparr>"
    and fcs: "fcs = [c]" and c: "c < length (nodes s1)"
    and cm: "node_matches ''FoodCategory'' ''id'' v (nodes s1 ! c)"
    and u1: "unique_on s1 (''FoodCategory'', ''id'')"
    and cl: "\<forall>n \<in> set cs. labels n = [''FoodCategory'']"
    by blast
  from f fcs have "create_food food c s1 = Inr s'" by (cases "create_food food c s1") simp_all
  from create_food_Inr [OF this] obtain ps where ps: "eval_props (food_props food) = Inr ps"
    and s': "s' = s1\<lparr>nodes := nodes s1 @ [\<lparr>labels = [''Food''], props = ps\<rparr>],
                    rels := rels s1 @ [\<lparr>rtype = ''BELONGS_TO'', src = length (nodes s1), dst = c,
                                       rprops = []\<rparr>]\<rparr>"
    by blast
  let ?fn = "\<lparr>labels = [''Food''], props = ps\<rparr>"
  let ?r = "\<lparr>rtype = ''BELONGS_TO'', src = length (nodes s1), dst = c, rprops = []\<rparr>"
  from s' s1 have e: "s' = s\<lparr>nodes := nodes s @ (cs @ [?fn]), rels := rels s @ [?r]\<rparr>" by simp
  from s' have ns: "nodes s' = nodes s1 @ [?fn]" by simp
  from c cm ps v have b: "belongs_to_of (nodes s') food ?r"
    by (simp add: belongs_to_of_def ns nth_append food_node_of_def)
  from s1 have le: "length (nodes s) \<le> src ?r" by simp
  from cl have "filter (\<lambda>n. ''Food'' \<in> set (labels n)) cs = []"
    by (auto simp: filter_empty_conv)
  then have cnt: "length (filter (\<lambda>n. ''Food'' \<in> set (labels n)) (cs @ [?fn])) = 1" by simp
  have "unique_on (s1\<lparr>nodes := nodes s1 @ [?fn]\<rparr>) (''FoodCategory'', ''id'')"
    by (rule unique_on_add [OF u1]) simp
  then have "unique_on ((s1\<lparr>nodes := nodes s1 @ [?fn]\<rparr>)\<lparr>rels := rels s1 @ [?r]\<rparr>)
               (''FoodCategory'', ''id'')"
    by (simp only: unique_on_rels)
  with s' have u': "unique_on s' (''FoodCategory'', ''id'')" by simp
  from e b le cnt u' show ?thesis by blast
qed

lemma belongs_to_of_append: "belongs_to_of ns food r \<Longrightarrow> belongs_to_of (ns @ ms) food r"
  by (auto simp: belongs_to_of_def nth_append split: sum.splits)

lemma food_rows_link:
  assumes "foldM food_row foods s = Inr s'" and "unique_on s (''FoodCategory'', ''id'')"
  shows "\<exists>newn newr. s' = s\<lparr>nodes := nodes s @ newn, rels := rels s @ newr\<rparr> \<and>
           list_all2 (belongs_to_of (nodes s')) foods newr \<and>
           (\<forall>r \<in> set newr. length (nodes s) \<le> src r) \<and>
           distinct (map src newr) \<and>
           length (filter (\<lambda>n. ''Food'' \<in> set (labels n)) newn) = length foods"
  using assms
proof (induction foods arbitrary: s)
  case Nil
  then have "s' = s\<lparr>nodes := nodes s @ [], rels := rels s @ []\<rparr>" by simp
  then show ?case by (auto intro!: exI [of _ "[]"])
next
  case (Cons food foods)
  from Cons.prems(1) obtain s1 where row: "food_row food s = Inr s1"
    and rest: "foldM food_row foods s1 = Inr s'"
    by (auto simp: and_then_Inr)
  from food_row_links [OF row Cons.prems(2)] obtain nn r where
    s1: "s1 = s\<lparr>nodes := nodes s @ nn, rels := rels s @ [r]\<rparr>"
    and b: "belongs_to_of (nodes s1) food r" and le: "length (nodes s) \<le> src r"
    and cnt: "length (filter (\<lambda>n. ''Food'' \<in> set (labels n)) nn) = 1"
    and u1: "unique_on s1 (''FoodCategory'', ''id'')"
    by blast
  from Cons.IH [OF rest u1] obtain newn newr where
    s': "s' = s1\<lparr>nodes := nodes s1 @ newn, rels := rels s1 @ newr\<rparr>"
    and l: "list_all2 (belongs_to_of (nodes s')) foods newr"
    and ge: "\<forall>x \<in> set newr. length (nodes s1) \<le> src x"
    and d: "distinct (map src newr)"
    and c: "length (filter (\<lambda>n. ''Food'' \<in> set (labels n)) newn) = length foods"
    by blast
  from s' s1 have e: "s' = s\<lparr>nodes := nodes s @ (nn @ newn), rels := rels s @ (r # newr)\<rparr>"
    by simp
  from s' have "nodes s' = nodes s1 @ newn" by simp
  with belongs_to_of_append [OF b, of newn] have b': "belongs_to_of (nodes s') food r" by simp
  with l have l': "list_all2 (belongs_to_of (nodes s')) (food # foods) (r # newr)" by simp
  from b have lt: "src r < length (nodes s1)" by (simp add: belongs_to_of_def)
  from s1 have "length (nodes s) \<le> length (nodes s1)" by simp
  with ge le have ge': "\<forall>x \<in> set (r # newr). length (nodes s) \<le> src x" by auto
  from ge lt have "src r \<notin> set (map src newr)" by auto
  with d have d': "distinct (map src (r # newr))" by simp
  from cnt c have c': "length (filter (\<lambda>n. ''Food'' \<in> set (labels n)) (nn @ newn)) =
                       length (food # foods)" by simp
  from e l' ge' d' c' show ?case by blast
qed

lemma links_per_food:
  assumes "create_foods_and_categories foods g = Inr g'"
    and "unique_on g (''FoodCategory'', ''id'')"
  shows "\<exists>newn newr. g' = g\<lparr>nodes := nodes g @ newn, rels := rels g @ newr\<rparr> \<and>
           list_all2 (belongs_to_of (nodes g')) foods newr \<and>
           (\<forall>r \<in> set newr. length (nodes g) \<le> src r) \<and>
           distinct (map src newr) \<and>
           length (filter (\<lambda>n. ''Food'' \<in> set (labels n)) newn) = length foods"
proof -
  have "0 < FOOD_BATCH_SIZE" by (simp add: FOOD_BATCH_SIZE_def)
  then have c: "concat (batches FOOD_BATCH_SIZE foods) = foods" by (rule concat_batches)
  from assms(1) have "foldM (\<lambda>b. foldM food_row b) (batches FOOD_BATCH_SIZE foods) g = Inr g'"
    by (simp add: create_foods_and_categories_def run_each_Inr food_stmt_def [abs_def])
  then have "foldM food_row foods g = Inr g'" by (simp add: foldM_concat c)
  from food_rows_link [OF this assms(2)] show ?thesis .
qed

section \<open>Inputs on which \<^verbatim>\<open>create_nutrients\<close> returns\<close>







section \<open>Stores that satisfy their constraints\<close>

lemma consistent_unique: "consistent g \<Longrightarrow> c \<in> set (constraints g) \<Longrightarrow> unique_on g c"
  by (simp add: consistent_def list_all_iff)

lemma unique_on_schema:
  "unique_on (g\<lparr>constraints := cs\<rparr>) c = unique_on g c"
  "unique_on (g\<lparr>indexes := ix\<rparr>) c = unique_on g c"
  by (simp_all add: unique_on_def match_nodes_def)

lemma create_constraint_consistent:
  assumes "consistent g" and "create_constraint c g = Inr g'"
  shows "consistent g' \<and> c \<in> set (constraints g') \<and> set (constraints g) \<subseteq> set (constraints g')"
  using assms
  by (auto simp: create_constraint_def consistent_def list_all_iff unique_on_schema
      split: if_splits)

lemma create_index_consistent:
  assumes "consistent g" and "create_index c g = Inr g'"
  shows "consistent g' \<and> constraints g' = constraints g"
  using assms
  by (auto simp: create_index_def consistent_def list_all_iff unique_on_schema split: if_splits)

lemma schema_consistent:
  assumes c: "consistent g" and r: "create_constraints_and_indexes g = Inr g'"
  shows "consistent g' \<and> set loader_constraints \<subseteq> set (constraints g')"
proof -
  from r obtain g1 g2 g3 g4 where
    s1: "create_constraint (''Food'', ''fdcId'') g = Inr g1"
    and s2: "create_constraint (''Nutrient'', ''id'') g1 = Inr g2"
    and s3: "create_constraint (''FoodCategory'', ''id'') g2 = Inr g3"
    and s4: "create_index (''Food'', ''description'') g3 = Inr g4"
    and s5: "create_index (''Nutrient'', ''name'') g4 = Inr g'"
    by (auto simp: create_constraints_and_indexes_def split: sum.splits)
  from create_constraint_consistent [OF c s1] have c1: "consistent g1"
    and m1: "(''Food'', ''fdcId'') \<in> set (constraints g1)" by simp_all
  from create_constraint_consistent [OF c1 s2] have c2: "consistent g2"
    and m2: "(''Nutrient'', ''id'') \<in> set (constraints g2)"
    and i2: "set (constraints g1) \<subseteq> set (constraints g2)" by simp_all
  from create_constraint_consistent [OF c2 s3] have c3: "consistent g3"
    and m3: "(''FoodCategory'', ''id'') \<in> set (constraints g3)"
    and i3: "set (constraints g2) \<subseteq> set (constraints g3)" by simp_all
  from create_index_consistent [OF c3 s4] have c4: "consistent g4"
    and e4: "constraints g4 = constraints g3" by simp_all
  from create_index_consistent [OF c4 s5] have c5: "consistent g'"
    and e5: "constraints g' = constraints g4" by simp_all
  from m1 m2 m3 i2 i3 e4 e5 have "set loader_constraints \<subseteq> set (constraints g')"
    by (auto simp: loader_constraints_def)
  with c5 show ?thesis by simp
qed

lemma create_node_consistent:
  assumes c: "consistent g" and r: "create_node g ls ps = Inr (g', i)"
  shows "consistent g' \<and> constraints g' = constraints g"
proof -
  from r have nv: "\<not> violates g ls ps"
    and g': "g' = g\<lparr>nodes := nodes g @ [\<lparr>labels = ls, props = ps\<rparr>]\<rparr>"
    by (auto simp: create_node_def split: if_splits)
  have "\<forall>c \<in> set (constraints g). unique_on g' c"
  proof
    fix c assume cm: "c \<in> set (constraints g)"
    obtain l k where lk: "c = (l, k)" by (cases c)
    from consistent_unique [OF c cm] lk have u: "unique_on g (l, k)" by simp
    have "unique_on (g\<lparr>nodes := nodes g @ [\<lparr>labels = ls, props = ps\<rparr>]\<rparr>) (l, k)"
    proof (rule unique_on_add [OF u])
      assume "l \<in> set ls"
      with nv cm lk show "match_nodes g l k (get_prop ps k) = []"
        by (auto simp: violates_def list_ex_iff)
    qed
    with lk g' show "unique_on g' c" by simp
  qed
  with g' show ?thesis by (simp add: consistent_def list_all_iff)
qed

lemma merge_node_consistent:
  assumes "consistent g" and "merge_node g l k v oc = Inr (g', ms)"
  shows "consistent g' \<and> constraints g' = constraints g"
proof (cases "match_nodes g l k v = []")
  case True
  with assms(2) obtain ps i where "create_node g [l] ps = Inr (g', i)"
    by (auto simp: merge_node_def and_then_Inr split: if_splits)
  from create_node_consistent [OF assms(1) this] show ?thesis .
next
  case False
  with merge_node_Inr [OF assms(2)] assms(1) show ?thesis by simp
qed

lemma consistent_rels: "consistent (g\<lparr>rels := r\<rparr>) = consistent g"
  by (simp add: consistent_def list_all_iff unique_on_rels)

lemma nutrient_row_consistent:
  assumes "consistent g" and "nutrient_row v g = Inr g'"
  shows "consistent g'"
proof -
  from assms(2) obtain i ms where
    "merge_node g ''Nutrient'' ''id'' i (nutrient_on_create v) = Inr (g', ms)"
    by (auto simp: nutrient_row_def and_then_Inr)
  from merge_node_consistent [OF assms(1) this] show ?thesis by simp
qed

lemma nutrients_consistent: "consistent g \<Longrightarrow> consistent (graph_of (create_nutrients foods g))"
proof (cases "collect_nutrients foods")
  case (Inl e)
  assume "consistent g"
  with Inl show ?thesis by (simp add: create_nutrients_def)
next
  case (Inr d)
  assume c: "consistent g"
  have "consistent (graph_of (run_each nutrient_stmt (batches NUTRIENT_BATCH_SIZE (map snd d)) g))"
  proof (rule run_each_inv [where I = consistent, OF c])
    fix b s s' assume "consistent s" and "nutrient_stmt b s = Inr s'"
    then show "consistent s'"
      unfolding nutrient_stmt_def
      by (rule foldM_inv [where I = consistent]) (auto intro: nutrient_row_consistent)
  qed
  with Inr show ?thesis by (simp add: create_nutrients_def)
qed

lemma create_food_consistent:
  assumes "consistent g" and "create_food food c g = Inr g'"
  shows "consistent g'"
proof -
  from assms(2) obtain ps g1 f where n: "create_node g [''Food''] ps = Inr (g1, f)"
    and g': "g' = create_rel g1 ''BELONGS_TO'' f c []"
    by (auto simp: create_food_def and_then_Inr)
  from create_node_consistent [OF assms(1) n] g' show ?thesis
    by (simp add: create_rel_def consistent_rels)
qed

lemma food_row_consistent:
  assumes "consistent g" and "food_row food g = Inr g'"
  shows "consistent g'"
proof -
  from assms(2) obtain v g1 fcs where
    m: "merge_node g ''FoodCategory'' ''id'' v (category_on_create food) = Inr (g1, fcs)"
    and f: "foldM (create_food food) fcs g1 = Inr g'"
    by (auto simp: food_row_def and_then_Inr)
  from merge_node_consistent [OF assms(1) m] have "consistent g1" by simp
  from this f show ?thesis
    by (rule foldM_inv [where I = consistent]) (auto intro: create_food_consistent)
qed

lemma foods_consistent:
  "consistent g \<Longrightarrow> consistent (graph_of (create_foods_and_categories foods g))"
  unfolding create_foods_and_categories_def
proof (erule run_each_inv [where I = consistent])
  fix b s s' assume "consistent s" and "food_stmt b s = Inr s'"
  then show "consistent s'"
    unfolding food_stmt_def
    by (rule foldM_inv [where I = consistent]) (auto intro: food_row_consistent)
qed

lemma links_only_consistent: "links_only g g' \<Longrightarrow> consistent g \<Longrightarrow> consistent g'"
  by (auto simp: links_only_def consistent_rels)

lemma relationships_consistent:
  "consistent g \<Longrightarrow> consistent (graph_of (create_nutrient_relationships i2f s2f foods g))"
  using relationships_links [of g i2f s2f foods] by (rule links_only_consistent)

lemma schema_step_consistent:
  "consistent g \<Longrightarrow> consistent (graph_of (create_constraints_and_indexes g))"
  unfolding create_constraints_and_indexes_def
  by (erule run_each_inv [where I = consistent])
     (auto dest: create_constraint_consistent create_index_consistent)

lemma consistent_empty: "consistent empty_graph"
  by (simp add: consistent_def empty_graph_def)

section \<open>Inputs on which \<^verbatim>\<open>create_foods_and_categories\<close> returns\<close>

lemma eval_props_items: "eval_props items = Inr ps \<Longrightarrow> (k, r) \<in> set items \<Longrightarrow> \<exists>v. r = Inr v"
proof (induction items arbitrary: ps rule: eval_props.induct)
  case 1
  then show ?case by simp
next
  case (2 k' e r')
  then show ?case by simp
next
  case (3 k' v' r')
  show ?case
  proof (cases "(k, r) = (k', Inr v')")
    case True
    then show ?thesis by simp
  next
    case False
    with "3.prems"(2) have m: "(k, r) \<in> set r'" by auto
    show ?thesis
    proof (cases "v' = JNull")
      case True
      with "3.prems"(1) have "eval_props r' = Inr ps" by simp
      from "3.IH"(1) [OF True this m] show ?thesis .
    next
      case False
      with "3.prems"(1) obtain ps' where s: "storable v'" and e: "eval_props r' = Inr ps'"
        by (auto simp: and_then_Inr split: if_splits)
      from "3.IH"(2) [OF False s e m] show ?thesis .
    qed
  qed
qed

lemma fdc_prop:
  assumes "eval_props (food_props food) = Inr ps"
  shows "get_prop ps ''fdcId'' = fdc_id food"
proof -
  have m: "(''fdcId'', cy_prop food ''fdcId'') \<in> set (food_props food)"
    by (simp add: food_props_def)
  from eval_props_items [OF assms m] obtain v where v: "cy_prop food ''fdcId'' = Inr v" by blast
  have d: "distinct (map fst (food_props food))" by (simp add: food_props_def)
  from m v have "(''fdcId'', Inr v) \<in> set (food_props food)" by simp
  from eval_props_get [OF assms d this] v show ?thesis by (simp add: fdc_id_def)
qed

lemma match_nodes_append:
  "match_nodes (g\<lparr>nodes := nodes g @ new\<rparr>) l k v = [] \<longleftrightarrow>
   match_nodes g l k v = [] \<and> (\<forall>n \<in> set new. \<not> node_matches l k v n)"
  using match_nodes_nonempty [of g l k v]
    match_nodes_nonempty [of "g\<lparr>nodes := nodes g @ new\<rparr>" l k v]
  by auto

lemma match_nodes_rels: "match_nodes (g\<lparr>rels := r\<rparr>) l k v = match_nodes g l k v"
  by (simp add: match_nodes_def)

lemma food_row_shape:
  assumes row: "food_row food s = Inr s'" and u: "unique_on s (''FoodCategory'', ''id'')"
  shows "\<exists>cs ps r. s' = s\<lparr>nodes := nodes s @ cs @ [\<lparr>labels = [''Food''], props = ps\<rparr>],
                          rels := rels s @ [r]\<rparr> \<and>
           (\<forall>n \<in> set cs. labels n = [''FoodCategory'']) \<and>
           eval_props (food_props food) = Inr ps"
proof -
  from row obtain v s1 fcs where
    m: "merge_node s ''FoodCategory'' ''id'' v (category_on_create food) = Inr (s1, fcs)"
    and f: "foldM (create_food food) fcs s1 = Inr s'"
    by (auto simp: food_row_def and_then_Inr)
  from merge_category [OF m u] obtain cs c where s1: "s1 = s\<lparr>nodes := nodes s @ cs\<rparr>"
    and fcs: "fcs = [c]" and cl: "\<forall>n \<in> set cs. labels n = [''FoodCategory'']"
    by blast
  from f fcs have "create_food food c s1 = Inr s'" by (cases "create_food food c s1") simp_all
  from create_food_Inr [OF this] obtain ps where ps: "eval_props (food_props food) = Inr ps"
    and s': "s' = s1\<lparr>nodes := nodes s1 @ [\<lparr>labels = [''Food''], props = ps\<rparr>],
                    rels := rels s1 @ [\<lparr>rtype = ''BELONGS_TO'', src = length (nodes s1), dst = c,
                                       rprops = []\<rparr>]\<rparr>"
    by blast
  from s' s1 have "s' = s\<lparr>nodes := nodes s @ cs @ [\<lparr>labels = [''Food''], props = ps\<rparr>],
      rels := rels s @ [\<lparr>rtype = ''BELONGS_TO'', src = length (nodes s1), dst = c,
                         rprops = []\<rparr>]\<rparr>"
    by simp
  with cl ps show ?thesis by blast
qed

lemma food_row_total:
  assumes wf: "food_wf food"
    and cons: "set (constraints s) \<subseteq> set loader_constraints"
    and u: "unique_on s (''FoodCategory'', ''id'')"
    and fresh: "match_nodes s ''Food'' ''fdcId'' (fdc_id food) = []"
  shows "\<exists>s'. food_row food s = Inr s'"
proof -
  from wf obtain v cps fps where v: "category_id food = Inr v" and nn: "v \<noteq> JNull"
    and cps: "eval_props ((''id'', Inr v) # category_on_create food) = Inr cps"
    and fps: "eval_props (food_props food) = Inr fps"
    by (auto simp: food_wf_def split: sum.splits)
  have "\<exists>s1 fcs. merge_node s ''FoodCategory'' ''id'' v (category_on_create food) = Inr (s1, fcs)"
  proof (cases "match_nodes s ''FoodCategory'' ''id'' v = []")
    case False
    with nn show ?thesis by (auto simp: merge_node_def split: list.splits)
  next
    case True
    from eval_props_head [OF cps nn] have gp: "get_prop cps ''id'' = v" by simp
    have "\<not> violates s [''FoodCategory''] cps"
    proof
      assume "violates s [''FoodCategory''] cps"
      then obtain l k where lk: "(l, k) \<in> set (constraints s)" and l: "l = ''FoodCategory''"
        and m: "match_nodes s l k (get_prop cps k) \<noteq> []"
        by (auto simp: violates_def list_ex_iff)
      from cons lk l have "k = ''id''" by (auto simp: loader_constraints_def)
      with m l gp True show False by simp
    qed
    with True nn cps show ?thesis by (simp add: merge_node_def create_node_def)
  qed
  then obtain s1 fcs where
    m: "merge_node s ''FoodCategory'' ''id'' v (category_on_create food) = Inr (s1, fcs)"
    by blast
  from merge_category [OF m u] obtain cs c where s1: "s1 = s\<lparr>nodes := nodes s @ cs\<rparr>"
    and fcs: "fcs = [c]" and cl: "\<forall>n \<in> set cs. labels n = [''FoodCategory'']"
    by blast
  from cl have "\<forall>n \<in> set cs. \<not> node_matches ''Food'' ''fdcId'' (fdc_id food) n"
    by (simp add: node_matches_def)
  with fresh s1 have fresh1: "match_nodes s1 ''Food'' ''fdcId'' (fdc_id food) = []"
    by (simp add: match_nodes_append)
  have "\<not> violates s1 [''Food''] fps"
  proof
    assume "violates s1 [''Food''] fps"
    then obtain l k where lk: "(l, k) \<in> set (constraints s1)" and l: "l = ''Food''"
      and mm: "match_nodes s1 l k (get_prop fps k) \<noteq> []"
      by (auto simp: violates_def list_ex_iff)
    from s1 lk have "(l, k) \<in> set (constraints s)" by simp
    with cons l have "k = ''fdcId''" by (auto simp: loader_constraints_def)
    with mm l fdc_prop [OF fps] fresh1 show False by simp
  qed
  with fps have "\<exists>s'. create_food food c s1 = Inr s'"
    by (simp add: create_food_def create_node_def)
  then obtain s' where "create_food food c s1 = Inr s'" by blast
  with fcs have "foldM (create_food food) fcs s1 = Inr s'" by simp
  with m v have "food_row food s = Inr s'"
    by (simp add: food_row_def category_id_def)
  then show ?thesis by blast
qed

lemma food_rows_total:
  assumes "set (constraints s) \<subseteq> set loader_constraints"
    and "unique_on s (''FoodCategory'', ''id'')"
    and "\<forall>f \<in> set foods. food_wf f \<and> match_nodes s ''Food'' ''fdcId'' (fdc_id f) = []"
    and "sorted_wrt (\<lambda>a b. \<not> cy_eq (fdc_id a) (fdc_id b)) foods"
  shows "\<exists>s'. foldM food_row foods s = Inr s'"
  using assms
proof (induction foods arbitrary: s)
  case Nil
  show ?case by simp
next
  case (Cons food foods)
  from Cons.prems(3) have wf: "food_wf food"
    and fresh: "match_nodes s ''Food'' ''fdcId'' (fdc_id food) = []" by simp_all
  from food_row_total [OF wf Cons.prems(1,2) fresh] obtain s1 where
    row: "food_row food s = Inr s1" by blast
  from food_row_shape [OF row Cons.prems(2)] obtain cs ps r where
    s1: "s1 = s\<lparr>nodes := nodes s @ cs @ [\<lparr>labels = [''Food''], props = ps\<rparr>],
                  rels := rels s @ [r]\<rparr>"
    and cl: "\<forall>n \<in> set cs. labels n = [''FoodCategory'']"
    and ps: "eval_props (food_props food) = Inr ps"
    by blast
  from food_row_links [OF row Cons.prems(2)] have u1: "unique_on s1 (''FoodCategory'', ''id'')"
    by blast
  from s1 Cons.prems(1) have c1: "set (constraints s1) \<subseteq> set loader_constraints" by simp
  have f1: "\<forall>f \<in> set foods. food_wf f \<and> match_nodes s1 ''Food'' ''fdcId'' (fdc_id f) = []"
  proof
    fix f assume f: "f \<in> set foods"
    with Cons.prems(3) have w: "food_wf f" and m: "match_nodes s ''Food'' ''fdcId'' (fdc_id f) = []"
      by simp_all
    from Cons.prems(4) f have ne: "\<not> cy_eq (fdc_id food) (fdc_id f)" by simp
    from cl have a: "\<forall>n \<in> set cs. \<not> node_matches ''Food'' ''fdcId'' (fdc_id f) n"
      by (simp add: node_matches_def)
    from ne fdc_prop [OF ps]
    have b: "\<not> node_matches ''Food'' ''fdcId'' (fdc_id f) \<lparr>labels = [''Food''], props = ps\<rparr>"
      by (simp add: node_matches_def)
    have "match_nodes (s\<lparr>nodes := nodes s @ (cs @ [\<lparr>labels = [''Food''], props = ps\<rparr>])\<rparr>)
            ''Food'' ''fdcId'' (fdc_id f) = []"
      unfolding match_nodes_append using m a b by simp
    then have "match_nodes s1 ''Food'' ''fdcId'' (fdc_id f) = []"
      by (simp add: s1 match_nodes_def)
    with w show "food_wf f \<and> match_nodes s1 ''Food'' ''fdcId'' (fdc_id f) = []" by simp
  qed
  from Cons.prems(4) have "sorted_wrt (\<lambda>a b. \<not> cy_eq (fdc_id a) (fdc_id b)) foods" by simp
  from Cons.IH [OF c1 u1 f1 this] obtain s' where "foldM food_row foods s1 = Inr s'" by blast
  with row show ?case by simp
qed

lemma create_foods_iff:
  "create_foods_and_categories foods g = Inr g' \<longleftrightarrow> foldM food_row foods g = Inr g'"
proof -
  have "0 < FOOD_BATCH_SIZE" by (simp add: FOOD_BATCH_SIZE_def)
  then have c: "concat (batches FOOD_BATCH_SIZE foods) = foods" by (rule concat_batches)
  have "foldM (\<lambda>b. foldM food_row b) (batches FOOD_BATCH_SIZE foods) g = foldM food_row foods g"
    by (simp add: foldM_concat c)
  then show ?thesis
    by (simp add: create_foods_and_categories_def run_each_Inr food_stmt_def [abs_def])
qed

text \<open>
  C7. On a consistent store that carries the uniqueness constraint on the identifier of
  FoodCategory nodes: (1) a run of \<^verbatim>\<open>create_foods_and_categories\<close> that returns has
  created one Food node and one \<^verbatim>\<open>BELONGS_TO\<close> relationship for every food record, in
  input order, and nothing else but categories: the relationship of a record starts at
  the node created for the record and ends at a category with the record's category
  identifier, and no two of the relationships start at the same node; (2) the method
  does return when the store carries no constraint but the loader's, every record can be
  written, no Food node of the store has the \<^verbatim>\<open>fdcId\<close> of a record, and no two records
  have equal \<^verbatim>\<open>fdcId\<close>.
\<close>

theorem one_category_link_per_food:
  assumes "consistent g" and "(''FoodCategory'', ''id'') \<in> set (constraints g)"
  shows "(\<forall>g'. create_foods_and_categories foods g = Inr g' \<longrightarrow>
           (\<exists>newn newr. g' = g\<lparr>nodes := nodes g @ newn, rels := rels g @ newr\<rparr> \<and>
              list_all2 (belongs_to_of (nodes g')) foods newr \<and>
              (\<forall>r \<in> set newr. length (nodes g) \<le> src r) \<and>
              distinct (map src newr) \<and>
              length (filter (\<lambda>n. ''Food'' \<in> set (labels n)) newn) = length foods)) \<and>
         (set (constraints g) \<subseteq> set loader_constraints \<and>
          (\<forall>food \<in> set foods.
             food_wf food \<and> match_nodes g ''Food'' ''fdcId'' (fdc_id food) = []) \<and>
          sorted_wrt (\<lambda>a b. \<not> cy_eq (fdc_id a) (fdc_id b)) foods \<longrightarrow>
           (\<exists>g'. create_foods_and_categories foods g = Inr g'))"
proof (intro conjI allI impI)
  from consistent_unique [OF assms] have u: "unique_on g (''FoodCategory'', ''id'')" .
  {
    fix g' assume "create_foods_and_categories foods g = Inr g'"
    from links_per_food [OF this u]
    show "\<exists>newn newr. g' = g\<lparr>nodes := nodes g @ newn, rels := rels g @ newr\<rparr> \<and>
              list_all2 (belongs_to_of (nodes g')) foods newr \<and>
              (\<forall>r \<in> set newr. length (nodes g) \<le> src r) \<and>
              distinct (map src newr) \<and>
              length (filter (\<lambda>n. ''Food'' \<in> set (labels n)) newn) = length foods" .
  }
  assume h: "set (constraints g) \<subseteq> set loader_constraints \<and>
          (\<forall>food \<in> set foods.
             food_wf food \<and> match_nodes g ''Food'' ''fdcId'' (fdc_id food) = []) \<and>
          sorted_wrt (\<lambda>a b. \<not> cy_eq (fdc_id a) (fdc_id b)) foods"
  then have "\<exists>s'. foldM food_row foods g = Inr s'"
    using food_rows_total [of g foods] u by blast
  then show "\<exists>g'. create_foods_and_categories foods g = Inr g'"
    by (simp add: create_foods_iff)
qed

theorem one_category_link_per_food_witness:
  "create_constraints_and_indexes empty_graph = Inr (nutrients_graph\<lparr>nodes := []\<rparr>) \<and>
   create_nutrients [apple, pear] (nutrients_graph\<lparr>nodes := []\<rparr>) = Inr nutrients_graph \<and>
   food_wf apple \<and> food_wf pear \<and>
   match_nodes nutrients_graph ''Food'' ''fdcId'' (fdc_id apple) = [] \<and>
   match_nodes nutrients_graph ''Food'' ''fdcId'' (fdc_id pear) = [] \<and>
   \<not> cy_eq (fdc_id apple) (fdc_id pear) \<and>
   create_foods_and_categories [apple, pear] nutrients_graph = Inr foods_graph \<and>
   (\<exists>newn newr.
      foods_graph = nutrients_graph\<lparr>nodes := nodes nutrients_graph @ newn,
                                    rels := rels nutrients_graph @ newr\<rparr> \<and>
      list_all2 (belongs_to_of (nodes foods_graph)) [apple, pear] newr \<and>
      distinct (map src newr) \<and>
      length (filter (\<lambda>n. ''Food'' \<in> set (labels n)) newn) = length [apple, pear])"
proof -
  let ?schema = "nutrients_graph\<lparr>nodes := []\<rparr>"
  have s: "create_constraints_and_indexes empty_graph = Inr ?schema" by code_simp
  have n: "create_nutrients [apple, pear] ?schema = Inr nutrients_graph" by code_simp
  note sc = schema_consistent [OF consistent_empty s]
  from sc have cs: "consistent ?schema" by (rule conjunct1)
  from sc have ls: "set loader_constraints \<subseteq> set (constraints ?schema)" by (rule conjunct2)
  have "consistent (graph_of (create_nutrients [apple, pear] ?schema))"
    using cs by (rule nutrients_consistent)
  then have c: "consistent nutrients_graph" unfolding n by (simp only: graph_of.simps)
  have k: "(''FoodCategory'', ''id'') \<in> set loader_constraints"
    by (simp add: loader_constraints_def)
  have q: "constraints nutrients_graph = constraints ?schema" by simp
  from ls k have "(''FoodCategory'', ''id'') \<in> set (constraints ?schema)" by (rule subsetD)
  then have m: "(''FoodCategory'', ''id'') \<in> set (constraints nutrients_graph)"
    by (simp only: q)
  have l: "set (constraints nutrients_graph) \<subseteq> set loader_constraints" by code_simp
  have w: "food_wf apple" "food_wf pear" by code_simp+
  have f: "match_nodes nutrients_graph ''Food'' ''fdcId'' (fdc_id apple) = []"
    "match_nodes nutrients_graph ''Food'' ''fdcId'' (fdc_id pear) = []" by code_simp+
  have d: "\<not> cy_eq (fdc_id apple) (fdc_id pear)" by code_simp
  have e: "create_foods_and_categories [apple, pear] nutrients_graph = Inr foods_graph"
    by code_simp
  note t = one_category_link_per_food [OF c m, of "[apple, pear]"]
  from w f d l have "set (constraints nutrients_graph) \<subseteq> set loader_constraints \<and>
      (\<forall>food \<in> set [apple, pear].
         food_wf food \<and> match_nodes nutrients_graph ''Food'' ''fdcId'' (fdc_id food) = []) \<and>
      sorted_wrt (\<lambda>a b. \<not> cy_eq (fdc_id a) (fdc_id b)) [apple, pear]"
    by simp
  with t obtain g' where r: "create_foods_and_categories [apple, pear] nutrients_graph = Inr g'"
    by blast
  with e have "g' = foods_graph" by simp
  with t r have "\<exists>newn newr.
      foods_graph = nutrients_graph\<lparr>nodes := nodes nutrients_graph @ newn,
                                    rels := rels nutrients_graph @ newr\<rparr> \<and>
      list_all2 (belongs_to_of (nodes foods_graph)) [apple, pear] newr \<and>
      distinct (map src newr) \<and>
      length (filter (\<lambda>n. ''Food'' \<in> set (labels n)) newn) = length [apple, pear]"
    by blast
  with s n w f d e show ?thesis by blast
qed

section \<open>Creating foods again\<close>

lemma foldM_Inl_step:
  "foldM f xs s = Inl e \<Longrightarrow> \<exists>x \<in> set xs. \<exists>t. f x t = Inl e"
proof (induction xs arbitrary: s)
  case Nil
  then show ?case by simp
next
  case (Cons x xs)
  then show ?case by (cases "f x s") auto
qed

lemma run_each_foldM_Inl:
  "foldM f xs g = Inl e \<Longrightarrow> \<exists>s. run_each f xs g = Inl (e, s)"
proof (induction xs arbitrary: g)
  case Nil
  then show ?case by simp
next
  case (Cons x xs)
  then show ?case by (cases "f x g") auto
qed

lemma create_foods_Inl:
  assumes "foldM food_row foods g = Inl e"
  shows "\<exists>s. create_foods_and_categories foods g = Inl (e, s)"
proof -
  have "0 < FOOD_BATCH_SIZE" by (simp add: FOOD_BATCH_SIZE_def)
  then have c: "concat (batches FOOD_BATCH_SIZE foods) = foods" by (rule concat_batches)
  have "foldM (\<lambda>b. foldM food_row b) (batches FOOD_BATCH_SIZE foods) g = Inl e"
    by (simp add: foldM_concat c assms)
  from run_each_foldM_Inl [OF this] show ?thesis
    by (simp add: create_foods_and_categories_def food_stmt_def [abs_def])
qed

lemma match_nodes_mono:
  assumes "nodes s' = nodes s @ nn" and "match_nodes s l k v \<noteq> []"
  shows "match_nodes s' l k v \<noteq> []"
  using assms match_nodes_nonempty [of s l k v] match_nodes_nonempty [of s' l k v] by auto

lemma create_foods_ext:
  assumes "foldM (create_food food) cs s = Inr s'"
  shows "constraints s' = constraints s \<and> (\<exists>nn. nodes s' = nodes s @ nn)"
proof (rule foldM_inv [where I = "\<lambda>t. constraints t = constraints s \<and> (\<exists>nn. nodes t = nodes s @ nn)",
      OF _ assms])
  show "constraints s = constraints s \<and> (\<exists>nn. nodes s = nodes s @ nn)" by simp
next
  fix c t t'
  assume i: "constraints t = constraints s \<and> (\<exists>nn. nodes t = nodes s @ nn)"
    and c: "create_food food c t = Inr t'"
  from create_food_Inr [OF c] i
  show "constraints t' = constraints s \<and> (\<exists>nn. nodes t' = nodes s @ nn)" by auto
qed

lemma merge_node_ext:
  assumes "merge_node s l k v oc = Inr (s', ms)"
  shows "constraints s' = constraints s \<and> (\<exists>nn. nodes s' = nodes s @ nn) \<and> ms \<noteq> [] \<and>
         v \<noteq> JNull \<and> match_nodes s' l k v \<noteq> []"
proof (cases "match_nodes s l k v = []")
  case True
  with merge_node_Inr [OF assms] obtain ps where
    e: "eval_props ((k, Inr v) # oc) = Inr ps" and v: "v \<noteq> JNull"
    and s': "s' = s\<lparr>nodes := nodes s @ [\<lparr>labels = [l], props = ps\<rparr>]\<rparr>"
    and ms: "ms = [length (nodes s)]" by auto
  from created_matches [OF e v, of l] s' have "match_nodes s' l k v \<noteq> []"
    by (simp add: match_nodes_nonempty)
  with s' ms v show ?thesis by simp
next
  case False
  with merge_node_Inr [OF assms] show ?thesis by auto
qed

lemma food_row_ext:
  assumes "food_row food s = Inr s'"
  shows "constraints s' = constraints s \<and> (\<exists>nn. nodes s' = nodes s @ nn)"
proof -
  from assms obtain v s1 fcs where
    m: "merge_node s ''FoodCategory'' ''id'' v (category_on_create food) = Inr (s1, fcs)"
    and f: "foldM (create_food food) fcs s1 = Inr s'"
    by (auto simp: food_row_def and_then_Inr)
  from merge_node_ext [OF m] create_foods_ext [OF f] show ?thesis by auto
qed

lemma food_rows_ext:
  assumes "foldM food_row foods s = Inr s'"
  shows "constraints s' = constraints s \<and> (\<exists>nn. nodes s' = nodes s @ nn)"
proof (rule foldM_inv [where I = "\<lambda>t. constraints t = constraints s \<and> (\<exists>nn. nodes t = nodes s @ nn)",
      OF _ assms])
  show "constraints s = constraints s \<and> (\<exists>nn. nodes s = nodes s @ nn)" by simp
next
  fix c t t'
  assume i: "constraints t = constraints s \<and> (\<exists>nn. nodes t = nodes s @ nn)"
    and c: "food_row c t = Inr t'"
  from food_row_ext [OF c] i
  show "constraints t' = constraints s \<and> (\<exists>nn. nodes t' = nodes s @ nn)" by auto
qed

lemma create_food_dup:
  assumes c: "(''Food'', ''fdcId'') \<in> set (constraints s)"
    and m: "match_nodes s ''Food'' ''fdcId'' (fdc_id food) \<noteq> []"
  shows "\<exists>e. create_food food fc s = Inl e \<and>
           ((\<exists>ps. eval_props (food_props food) = Inr ps) \<longrightarrow> e = ConstraintError)"
proof (cases "eval_props (food_props food)")
  case (Inl e)
  then show ?thesis by (simp add: create_food_def)
next
  case (Inr ps)
  from fdc_prop [OF Inr] m have "match_nodes s ''Food'' ''fdcId'' (get_prop ps ''fdcId'') \<noteq> []"
    by simp
  with c have "violates s [''Food''] ps"
    by (auto simp: violates_def list_ex_iff intro!: bexI [of _ "(''Food'', ''fdcId'')"])
  with Inr show ?thesis by (simp add: create_food_def create_node_def)
qed

lemma create_food_error:
  assumes "create_food food fc s = Inl e" and "eval_props (food_props food) = Inr ps"
  shows "e = ConstraintError"
  using assms by (auto simp: create_food_def create_node_def create_rel_def split: if_splits)

lemma food_row_dup:
  assumes c: "(''Food'', ''fdcId'') \<in> set (constraints s)"
    and m: "match_nodes s ''Food'' ''fdcId'' (fdc_id food) \<noteq> []"
  shows "\<exists>e. food_row food s = Inl e"
proof (cases "category_id food")
  case (Inl e)
  then show ?thesis by (simp add: food_row_def category_id_def)
next
  case (Inr v)
  show ?thesis
  proof (cases "merge_node s ''FoodCategory'' ''id'' v (category_on_create food)")
    case (Inl e)
    with Inr show ?thesis by (simp add: food_row_def category_id_def)
  next
    case r: (Inr p)
    obtain s1 fcs where p: "p = (s1, fcs)" by (cases p)
    from merge_node_ext [OF r [unfolded p]] obtain nn where
      c1: "constraints s1 = constraints s" and n1: "nodes s1 = nodes s @ nn" and ne: "fcs \<noteq> []"
      by blast
    from ne obtain fc rest where fcs: "fcs = fc # rest" by (cases fcs) auto
    from c c1 have c': "(''Food'', ''fdcId'') \<in> set (constraints s1)" by simp
    from match_nodes_mono [OF n1 m] have m': "match_nodes s1 ''Food'' ''fdcId'' (fdc_id food) \<noteq> []" .
    from create_food_dup [OF c' m', of fc] obtain e where "create_food food fc s1 = Inl e" by blast
    with Inr r p fcs show ?thesis by (simp add: food_row_def category_id_def)
  qed
qed

lemma food_row_error:
  assumes wf: "food_wf food" and e: "food_row food s = Inl e"
  shows "e = ConstraintError"
proof -
  from wf obtain v ps' ps where v: "category_id food = Inr v" and nn: "v \<noteq> JNull"
    and oc: "eval_props ((''id'', Inr v) # category_on_create food) = Inr ps'"
    and ps: "eval_props (food_props food) = Inr ps"
    by (auto simp: food_wf_def split: sum.splits)
  show ?thesis
  proof (cases "merge_node s ''FoodCategory'' ''id'' v (category_on_create food)")
    case (Inl e')
    with v e have "e' = e" by (simp add: food_row_def category_id_def)
    with Inl nn oc show ?thesis
      by (auto simp: merge_node_def create_node_def split: list.splits if_splits)
  next
    case (Inr p)
    obtain s1 fcs where p: "p = (s1, fcs)" by (cases p)
    from v e Inr p have "foldM (create_food food) fcs s1 = Inl e"
      by (simp add: food_row_def category_id_def)
    from foldM_Inl_step [OF this] obtain fc t where "create_food food fc t = Inl e" by blast
    from create_food_error [OF this ps] show ?thesis .
  qed
qed

lemma food_rows_dup:
  assumes "(''Food'', ''fdcId'') \<in> set (constraints s)" and "food \<in> set foods"
    and "match_nodes s ''Food'' ''fdcId'' (fdc_id food) \<noteq> []"
  shows "\<exists>e. foldM food_row foods s = Inl e"
  using assms
proof (induction foods arbitrary: s)
  case Nil
  then show ?case by simp
next
  case (Cons x xs)
  show ?case
  proof (cases "food_row x s")
    case (Inl e)
    then show ?thesis by simp
  next
    case (Inr s1)
    from food_row_dup [OF Cons.prems(1), of x] Inr
    have "match_nodes s ''Food'' ''fdcId'' (fdc_id x) = []" by auto
    with Cons.prems(2,3) have mem: "food \<in> set xs" by auto
    from food_row_ext [OF Inr] obtain nn where c1: "constraints s1 = constraints s"
      and n1: "nodes s1 = nodes s @ nn" by blast
    from c1 Cons.prems(1) have c': "(''Food'', ''fdcId'') \<in> set (constraints s1)" by simp
    from Cons.IH [OF c' mem match_nodes_mono [OF n1 Cons.prems(3)]] Inr show ?thesis by simp
  qed
qed

lemma food_rows_error:
  assumes "\<forall>x \<in> set foods. food_wf x" and "foldM food_row foods s = Inl e"
  shows "e = ConstraintError"
proof -
  from foldM_Inl_step [OF assms(2)] obtain x t where "x \<in> set foods" "food_row x t = Inl e"
    by blast
  with assms(1) food_row_error [of x t e] show ?thesis by simp
qed

lemma food_written_mono:
  assumes "food_written s food" and "nodes s' = nodes s @ nn"
  shows "food_written s' food"
  using assms match_nodes_mono [OF assms(2)]
  by (auto simp: food_written_def split: sum.splits)

lemma storable_fdc:
  assumes "eval_props (food_props food) = Inr ps" and "fdc_id food \<noteq> JNull"
  shows "storable (fdc_id food)"
proof -
  have "food_props food = (''fdcId'', cy_prop food ''fdcId'') # tl (food_props food)"
    by (simp add: food_props_def)
  moreover from assms(2) obtain v where v: "cy_prop food ''fdcId'' = Inr v" "v \<noteq> JNull"
    and f: "fdc_id food = v"
    by (cases "cy_prop food ''fdcId''") (auto simp: fdc_id_def)
  ultimately have "eval_props ((''fdcId'', Inr v) # tl (food_props food)) = Inr ps"
    using assms(1) by simp
  from eval_props_head [OF this v(2)] f show ?thesis by simp
qed

lemma food_row_written:
  assumes "food_row food s = Inr s'"
  shows "food_written s' food"
proof -
  from assms obtain v s1 fcs where v: "category_id food = Inr v"
    and m: "merge_node s ''FoodCategory'' ''id'' v (category_on_create food) = Inr (s1, fcs)"
    and f: "foldM (create_food food) fcs s1 = Inr s'"
    by (auto simp: food_row_def category_id_def and_then_Inr)
  from merge_node_ext [OF m] have ne: "fcs \<noteq> []" and nn: "v \<noteq> JNull"
    and cm: "match_nodes s1 ''FoodCategory'' ''id'' v \<noteq> []" by auto
  from ne obtain fc rest where fcs: "fcs = fc # rest" by (cases fcs) auto
  with f obtain s2 where c: "create_food food fc s1 = Inr s2"
    and r: "foldM (create_food food) rest s2 = Inr s'"
    by (auto simp: and_then_Inr)
  from create_food_Inr [OF c] obtain ps where ps: "eval_props (food_props food) = Inr ps"
    and s2: "nodes s2 = nodes s1 @ [\<lparr>labels = [''Food''], props = ps\<rparr>]" by auto
  from create_foods_ext [OF r] obtain n2 where n2: "nodes s' = nodes s2 @ n2" by blast
  from s2 n2 have n1: "nodes s' = nodes s1 @ (\<lparr>labels = [''Food''], props = ps\<rparr> # n2)" by simp
  from match_nodes_mono [OF n1 cm] have a: "match_nodes s' ''FoodCategory'' ''id'' v \<noteq> []" .
  have b: "fdc_id food = JNull \<or> match_nodes s' ''Food'' ''fdcId'' (fdc_id food) \<noteq> []"
  proof (cases "fdc_id food = JNull")
    case True
    then show ?thesis by simp
  next
    case False
    from storable_fdc [OF ps False] have "cy_eq (fdc_id food) (fdc_id food)" by (rule cy_eq_refl)
    with fdc_prop [OF ps]
    have "node_matches ''Food'' ''fdcId'' (fdc_id food) \<lparr>labels = [''Food''], props = ps\<rparr>"
      by (simp add: node_matches_def)
    with n1 have "match_nodes s' ''Food'' ''fdcId'' (fdc_id food) \<noteq> []"
      by (auto simp: match_nodes_nonempty)
    then show ?thesis by simp
  qed
  from v nn a ps b show ?thesis by (simp add: food_written_def)
qed

lemma food_rows_written:
  assumes "foldM food_row foods s = Inr s'"
  shows "\<forall>food \<in> set foods. food_written s' food"
  using assms
proof (induction foods arbitrary: s)
  case Nil
  then show ?case by simp
next
  case (Cons x xs)
  from Cons.prems obtain s1 where a: "food_row x s = Inr s1" and b: "foldM food_row xs s1 = Inr s'"
    by (auto simp: and_then_Inr)
  from food_rows_ext [OF b] obtain nn where "nodes s' = nodes s1 @ nn" by blast
  from food_written_mono [OF food_row_written [OF a] this] Cons.IH [OF b]
  show ?case by simp
qed

lemma written_row:
  assumes w: "food_written s food"
  shows "(\<forall>e. food_row food s = Inl e \<longrightarrow> e = ConstraintError) \<and>
         ((''Food'', ''fdcId'') \<in> set (constraints s) \<and> fdc_id food \<noteq> JNull \<longrightarrow>
            food_row food s = Inl ConstraintError)"
proof -
  from w obtain v ps where v: "category_id food = Inr v" and nn: "v \<noteq> JNull"
    and cm: "match_nodes s ''FoodCategory'' ''id'' v \<noteq> []"
    and ps: "eval_props (food_props food) = Inr ps"
    and fm: "fdc_id food = JNull \<or> match_nodes s ''Food'' ''fdcId'' (fdc_id food) \<noteq> []"
    by (auto simp: food_written_def split: sum.splits)
  from v merge_node_present [OF nn cm]
  have row: "food_row food s =
             foldM (create_food food) (match_nodes s ''FoodCategory'' ''id'' v) s"
    by (simp add: food_row_def category_id_def)
  have a: "\<forall>e. food_row food s = Inl e \<longrightarrow> e = ConstraintError"
  proof (intro allI impI)
    fix e assume "food_row food s = Inl e"
    with row have "foldM (create_food food) (match_nodes s ''FoodCategory'' ''id'' v) s = Inl e"
      by simp
    from foldM_Inl_step [OF this] obtain fc t where "create_food food fc t = Inl e" by blast
    from create_food_error [OF this ps] show "e = ConstraintError" .
  qed
  have b: "(''Food'', ''fdcId'') \<in> set (constraints s) \<and> fdc_id food \<noteq> JNull \<longrightarrow>
            food_row food s = Inl ConstraintError"
  proof
    assume h: "(''Food'', ''fdcId'') \<in> set (constraints s) \<and> fdc_id food \<noteq> JNull"
    with fm have m: "match_nodes s ''Food'' ''fdcId'' (fdc_id food) \<noteq> []" by simp
    from h have c: "(''Food'', ''fdcId'') \<in> set (constraints s)" by simp
    from food_row_dup [OF c m] obtain e where "food_row food s = Inl e" by blast
    with a show "food_row food s = Inl ConstraintError" by simp
  qed
  from a b show ?thesis by simp
qed

lemma written_rows:
  assumes "(''Food'', ''fdcId'') \<in> set (constraints s)"
    and "\<forall>food \<in> set foods. food_written s food"
    and "\<exists>food \<in> set foods. fdc_id food \<noteq> JNull"
  shows "foldM food_row foods s = Inl ConstraintError"
  using assms
proof (induction foods arbitrary: s)
  case Nil
  then show ?case by simp
next
  case (Cons x xs)
  from Cons.prems(2) have wx: "food_written s x" by simp
  show ?case
  proof (cases "food_row x s")
    case (Inl e)
    with written_row [OF wx] show ?thesis by simp
  next
    case (Inr s1)
    with written_row [OF wx] Cons.prems(1) have "fdc_id x = JNull" by auto
    with Cons.prems(3) have ex: "\<exists>food \<in> set xs. fdc_id food \<noteq> JNull" by auto
    from food_row_ext [OF Inr] obtain nn where c1: "constraints s1 = constraints s"
      and n1: "nodes s1 = nodes s @ nn" by blast
    from c1 Cons.prems(1) have c': "(''Food'', ''fdcId'') \<in> set (constraints s1)" by simp
    from Cons.prems(2) food_written_mono [OF _ n1]
    have w': "\<forall>food \<in> set xs. food_written s1 food" by simp
    from Cons.IH [OF c' w' ex] Inr show ?thesis by simp
  qed
qed

text \<open>
  C3. Let the store carry the uniqueness constraint on the \<^verbatim>\<open>fdcId\<close> of Food nodes.
  (1) Whenever the input contains a record whose \<^verbatim>\<open>fdcId\<close> a Food node of the store
  already has, \<^verbatim>\<open>create_foods_and_categories\<close> raises; when every record of the input can
  be written, what it raises is the constraint error. (2) When the store has all the
  nodes of a store on which the method returned for this very input, and some record of
  the input has an \<^verbatim>\<open>fdcId\<close>, the second run raises the constraint error.
\<close>

theorem food_creation_not_idempotent:
  assumes "(''Food'', ''fdcId'') \<in> set (constraints s)"
  shows "(\<forall>food \<in> set foods. match_nodes s ''Food'' ''fdcId'' (fdc_id food) \<noteq> [] \<longrightarrow>
            (\<exists>e s'. create_foods_and_categories foods s = Inl (e, s') \<and>
               ((\<forall>x \<in> set foods. food_wf x) \<longrightarrow> e = ConstraintError))) \<and>
         (\<forall>g g1 later. create_foods_and_categories foods g = Inr g1 \<and>
             nodes s = nodes g1 @ later \<and> (\<exists>food \<in> set foods. fdc_id food \<noteq> JNull) \<longrightarrow>
            (\<exists>s'. create_foods_and_categories foods s = Inl (ConstraintError, s')))"
proof (intro conjI ballI allI impI)
  fix food assume "food \<in> set foods" "match_nodes s ''Food'' ''fdcId'' (fdc_id food) \<noteq> []"
  from food_rows_dup [OF assms this] obtain e where e: "foldM food_row foods s = Inl e" by blast
  from create_foods_Inl [OF e] obtain s' where
    r: "create_foods_and_categories foods s = Inl (e, s')" by blast
  from food_rows_error [OF _ e] have "(\<forall>x \<in> set foods. food_wf x) \<longrightarrow> e = ConstraintError"
    by blast
  with r show "\<exists>e s'. create_foods_and_categories foods s = Inl (e, s') \<and>
               ((\<forall>x \<in> set foods. food_wf x) \<longrightarrow> e = ConstraintError)" by blast
next
  fix g g1 later
  assume h: "create_foods_and_categories foods g = Inr g1 \<and>
             nodes s = nodes g1 @ later \<and> (\<exists>food \<in> set foods. fdc_id food \<noteq> JNull)"
  then have "foldM food_row foods g = Inr g1" by (simp add: create_foods_iff)
  from food_rows_written [OF this] h food_written_mono [of g1 _ s later]
  have w: "\<forall>food \<in> set foods. food_written s food" by blast
  from h have "\<exists>food \<in> set foods. fdc_id food \<noteq> JNull" by simp
  from create_foods_Inl [OF written_rows [OF assms w this]]
  show "\<exists>s'. create_foods_and_categories foods s = Inl (ConstraintError, s')" .
qed

theorem food_creation_not_idempotent_witness:
  "(''Food'', ''fdcId'') \<in> set (constraints imported_graph) \<and>
   match_nodes imported_graph ''Food'' ''fdcId'' (fdc_id apple) = [2] \<and>
   food_wf apple \<and> food_wf pear \<and>
   create_foods_and_categories [apple, pear] nutrients_graph = Inr foods_graph \<and>
   nodes imported_graph = nodes foods_graph @ [] \<and>
   fdc_id apple = JInt 1 \<and>
   create_foods_and_categories [apple, pear] imported_graph =
     Inl (ConstraintError, imported_graph) \<and>
   (\<exists>s'. create_foods_and_categories [apple, pear] imported_graph = Inl (ConstraintError, s'))"
proof -
  have c: "(''Food'', ''fdcId'') \<in> set (constraints imported_graph)" by code_simp
  have m: "match_nodes imported_graph ''Food'' ''fdcId'' (fdc_id apple) = [2]" by code_simp
  have w: "food_wf apple" "food_wf pear" by code_simp+
  have r: "create_foods_and_categories [apple, pear] nutrients_graph = Inr foods_graph"
    by code_simp
  have n: "nodes imported_graph = nodes foods_graph @ []" by code_simp
  have f: "fdc_id apple = JInt 1" by code_simp
  have e: "create_foods_and_categories [apple, pear] imported_graph =
     Inl (ConstraintError, imported_graph)" by code_simp
  note t = food_creation_not_idempotent [OF c, of "[apple, pear]"]
  from t m w have "\<exists>e s'. create_foods_and_categories [apple, pear] imported_graph = Inl (e, s') \<and>
      e = ConstraintError" by simp
  moreover from f have "\<exists>food \<in> set [apple, pear]. fdc_id food \<noteq> JNull" by simp
  with t r n have "\<exists>s'. create_foods_and_categories [apple, pear] imported_graph =
      Inl (ConstraintError, s')" by blast
  ultimately show ?thesis using c m w r n f e by blast
qed

end
